theory Spec2Isabelle
  imports Complex_Main
begin

text \<open>
  The bounty agent of \<open>agent.ts\<close>, with the listing client of \<open>bounty-client.ts\<close> and
  the interfaces of \<open>types.ts\<close>. An \<open>async\<close> method becomes a function from the agent
  to a pair: what the method returns (\<open>Inr\<close>) or throws (\<open>Inl\<close>), and the agent after the
  call. Each \<open>try\<close>/\<open>catch\<close> is a case distinction on that result. What the program
  writes to the console is left out.
\<close>

section \<open>JavaScript values used by the agent\<close>

text \<open>
  A thrown \<open>Error\<close> carries its message; every \<open>catch\<close> of the program reads only
  \<open>err.message\<close>.
\<close>

datatype js_error = Error string

fun message :: "js_error \<Rightarrow> string" where
  "message (Error m) = m"

text \<open>
  JavaScript numbers. A finite double is represented by the real number it denotes, beside
  \<open>NaN\<close> and the two infinities; the sign of zero is not distinguished. A numeric
  literal of the program stands for the double it denotes: \<open>0\<close>, \<open>100\<close>, \<open>300000\<close> and
  \<open>1e6\<close> are that number itself, and \<open>0.6\<close> is \<open>5404319552844595 / 2^53\<close>.
\<close>

datatype jsnum = NaN | NegInf | Num real | PosInf

text \<open>\<open>a > b\<close>: false as soon as one side is \<open>NaN\<close>.\<close>

fun js_gt :: "jsnum \<Rightarrow> jsnum \<Rightarrow> bool" where
  "js_gt NaN _ = False"
| "js_gt _ NaN = False"
| "js_gt (Num x) (Num y) = (y < x)"
| "js_gt PosInf PosInf = False"
| "js_gt PosInf _ = True"
| "js_gt NegInf _ = False"
| "js_gt (Num x) NegInf = True"
| "js_gt (Num x) PosInf = False"

text \<open>\<open>a >= b\<close>: false as soon as one side is \<open>NaN\<close>.\<close>

fun js_ge :: "jsnum \<Rightarrow> jsnum \<Rightarrow> bool" where
  "js_ge NaN _ = False"
| "js_ge _ NaN = False"
| "js_ge (Num x) (Num y) = (y \<le> x)"
| "js_ge PosInf _ = True"
| "js_ge NegInf NegInf = True"
| "js_ge NegInf _ = False"
| "js_ge (Num x) NegInf = True"
| "js_ge (Num x) PosInf = False"

text \<open>
  \<open>a / b\<close>. The quotient of two finite doubles is the exact quotient rounded to a double
  (or to an infinity when it is out of range); the rounding \<open>rnd\<close> is a function of the
  platform, given with the world below.
\<close>

fun js_div :: "(real \<Rightarrow> jsnum) \<Rightarrow> jsnum \<Rightarrow> jsnum \<Rightarrow> jsnum" where
  "js_div rnd NaN _ = NaN"
| "js_div rnd _ NaN = NaN"
| "js_div rnd (Num x) (Num y) =
     (if y \<noteq> 0 then rnd (x / y)
      else if x = 0 then NaN else if 0 < x then PosInf else NegInf)"
| "js_div rnd (Num x) PosInf = Num 0"
| "js_div rnd (Num x) NegInf = Num 0"
| "js_div rnd PosInf (Num y) = (if 0 \<le> y then PosInf else NegInf)"
| "js_div rnd NegInf (Num y) = (if 0 \<le> y then NegInf else PosInf)"
| "js_div rnd PosInf _ = NaN"
| "js_div rnd NegInf _ = NaN"

text \<open>Truthiness of a number (\<open>0\<close> and \<open>NaN\<close> are falsy) and of a string (\<open>""\<close> is falsy).\<close>

fun truthy_num :: "jsnum \<Rightarrow> bool" where
  "truthy_num NaN = False"
| "truthy_num (Num x) = (x \<noteq> 0)"
| "truthy_num _ = True"

definition truthy_str :: "string \<Rightarrow> bool" where
  "truthy_str s = (s \<noteq> [])"

text \<open>\<open>xs.join(sep)\<close> on an array of strings.\<close>

fun join :: "string \<Rightarrow> string list \<Rightarrow> string" where
  "join sep [] = []"
| "join sep [x] = x"
| "join sep (x # y # ys) = x @ sep @ join sep (y # ys)"

text \<open>A non-negative integer rendered in decimal, as a template literal does.\<close>

fun show_nat :: "nat \<Rightarrow> string" where
  "show_nat n =
     (if n < 10 then [''0123456789'' ! n]
      else show_nat (n div 10) @ [''0123456789'' ! (n mod 10)])"

declare show_nat.simps [simp del]

section \<open>The interfaces of types.ts\<close>

record Bounty =
  id' :: string
  title :: string
  description :: string
  status :: string
  reward :: string
  rewardFormatted :: string
  tags :: "string list"
  claimedBy :: "string option"
  createdAt :: "string option"
  completedAt :: "string option"

text \<open>\<open>AgentConfig\<close> as the caller passes it: an optional field may be absent.\<close>

record AgentConfig =
  openRouterApiKey_arg :: string
  walletAddress_arg :: string
  model_arg :: "string option"
  skills_arg :: "string list option"
  maxReward_arg :: "jsnum option"
  apiBase_arg :: "string option"
  dryRun_arg :: "bool option"
  pollInterval_arg :: "jsnum option"

text \<open>\<open>Required<AgentConfig>\<close>: the configuration the constructor resolves.\<close>

record Config =
  openRouterApiKey :: string
  walletAddress :: string
  model :: string
  skills :: "string list"
  maxReward :: jsnum
  apiBase :: string
  dryRun :: bool
  pollInterval :: jsnum

record EvaluationResult =
  suitable :: bool
  confidence :: jsnum
  reasoning :: string
  estimatedEffort :: string

record SubmissionResult =
  bountyId :: string
  submission :: string
  proof_url :: string
  status' :: string

record AgentState =
  claimedBounties :: "string set"
  completedBounties :: "string set"
  skippedBounties :: "string set"
  isRunning :: bool

datatype role = System | User | Assistant

record OpenRouterMessage =
  role :: role
  content :: string

text \<open>
  \<open>OpenRouterResponse\<close>: the list \<open>choices\<close>, each entry reduced to its
  \<open>message.content\<close>.
\<close>

record OpenRouterResponse =
  choices :: "string list"

section \<open>The world outside the process\<close>

text \<open>
  The program suspends where it sends a request with \<open>fetch\<close> (and reads the
  response) and at the timer between two cycles; each request and each timer is recorded
  as an event. The history of events is the sole index of what the outside world answers,
  so a remote service may answer each call differently.
\<close>

datatype body =
  ClaimBody string
| SubmitBody string string string
| ChatBody string string "OpenRouterMessage list"

datatype event =
  HttpGet string
| HttpPost string body
| Sleep jsnum

text \<open>
  What \<open>fetch\<close> gives: it rejects (a network failure), or it resolves to a response with
  a status, the body as text and the outcome of decoding the body as JSON.
\<close>

datatype 'a fetch_result =
  Rejected string
| Responded nat string "js_error + 'a"

definition res_ok :: "nat \<Rightarrow> bool" where
  "res_ok st = (200 \<le> st \<and> st \<le> 299)"

text \<open>
  The world: the answers of the listing service and of the oracle, whether the embedding
  program calls \<open>stop()\<close> while the agent is suspended, and what the platform provides
  and the repository does not contain: \<open>Number\<close> on a string, \<open>JSON.parse\<close> (with the
  cast to \<open>EvaluationResult\<close> the program applies to its result), and the rounding of an
  exact quotient to a double. The answer to a claim or a submission is the object
  \<open>{status}\<close>, reduced to its \<open>status\<close> string.
\<close>

record world =
  bounties_reply :: "event list \<Rightarrow> Bounty list fetch_result"
  status_reply :: "event list \<Rightarrow> string fetch_result"
  chat_reply :: "event list \<Rightarrow> OpenRouterResponse fetch_result"
  stop_called :: "event list \<Rightarrow> bool"
  js_Number :: "string \<Rightarrow> jsnum"
  JSON_parse :: "string \<Rightarrow> js_error + EvaluationResult"
  round_to_double :: "real \<Rightarrow> jsnum"

text \<open>The agent object, with the history of its suspension points.\<close>

record BountyAgent =
  config :: Config
  state :: AgentState
  trace :: "event list"

section \<open>The constructor of BountyAgent\<close>

definition DEFAULT_MODEL :: string where
  "DEFAULT_MODEL = ''anthropic/claude-sonnet-4''"

definition DEFAULT_API_BASE :: string where
  "DEFAULT_API_BASE = ''https://bounty.owockibot.xyz''"

definition OPENROUTER_API :: string where
  "OPENROUTER_API = ''https://openrouter.ai/api/v1/chat/completions''"

text \<open>\<open>x || d\<close> on an optional string and on an optional number.\<close>

definition or_str :: "string option \<Rightarrow> string \<Rightarrow> string" where
  "or_str x d = (case x of None \<Rightarrow> d | Some s \<Rightarrow> if truthy_str s then s else d)"

definition or_num :: "jsnum option \<Rightarrow> jsnum \<Rightarrow> jsnum" where
  "or_num x d = (case x of None \<Rightarrow> d | Some n \<Rightarrow> if truthy_num n then n else d)"

definition new_BountyAgent :: "AgentConfig \<Rightarrow> BountyAgent" where
  "new_BountyAgent c =
     \<lparr> config =
         \<lparr> openRouterApiKey = openRouterApiKey_arg c,
           walletAddress = walletAddress_arg c,
           model = or_str (model_arg c) DEFAULT_MODEL,
           skills = (case skills_arg c of None \<Rightarrow> [] | Some ss \<Rightarrow> ss),
           maxReward = or_num (maxReward_arg c) (Num 100),
           apiBase = or_str (apiBase_arg c) ''https://bounty.owockibot.xyz'',
           dryRun = (case dryRun_arg c of None \<Rightarrow> False | Some d \<Rightarrow> d),
           pollInterval = or_num (pollInterval_arg c) (Num 300000) \<rparr>,
       state =
         \<lparr> claimedBounties = {},
           completedBounties = {},
           skippedBounties = {},
           isRunning = False \<rparr>,
       trace = [] \<rparr>"

section \<open>Suspension points and the listing client (bounty-client.ts)\<close>

text \<open>\<open>stop()\<close> clears the running flag.\<close>

definition stop :: "BountyAgent \<Rightarrow> BountyAgent" where
  "stop a = a\<lparr>state := (state a)\<lparr>isRunning := False\<rparr>\<rparr>"

text \<open>
  An \<open>await\<close> on the outside world: the event is recorded, and the embedding program may
  call \<open>stop()\<close> before the agent resumes.
\<close>

definition await :: "world \<Rightarrow> event \<Rightarrow> BountyAgent \<Rightarrow> BountyAgent" where
  "await W ev a =
     (let a' = a\<lparr>trace := trace a @ [ev]\<rparr>
      in if stop_called W (trace a') then stop a' else a')"

text \<open>The base address held by the \<open>BountyClient\<close> the constructor creates.\<close>

definition client_apiBase :: "BountyAgent \<Rightarrow> string" where
  "client_apiBase a = or_str (Some (apiBase (config a))) DEFAULT_API_BASE"

text \<open>\<open>BountyClient.request\<close>: a non-2xx response is thrown as an error.\<close>

definition request ::
  "world \<Rightarrow> (event list \<Rightarrow> 'a fetch_result) \<Rightarrow> event \<Rightarrow> BountyAgent
     \<Rightarrow> (js_error + 'a) \<times> BountyAgent" where
  "request W reply ev a =
     (let a' = await W ev a
      in ((case reply (trace a') of
             Rejected m \<Rightarrow> Inl (Error m)
           | Responded st txt js \<Rightarrow>
               if \<not> res_ok st then Inl (Error (''Bounty API '' @ show_nat st @ '': '' @ txt))
               else js), a'))"

definition listBounties :: "world \<Rightarrow> BountyAgent \<Rightarrow> (js_error + Bounty list) \<times> BountyAgent" where
  "listBounties W a =
     (case request W (bounties_reply W) (HttpGet (client_apiBase a @ ''/bounties'')) a of
        (Inl e, a') \<Rightarrow> (Inl e, a')
      | (Inr bounties, a') \<Rightarrow> (Inr (filter (\<lambda>b. truthy_str (title b)) bounties), a'))"

definition listOpenBounties :: "world \<Rightarrow> BountyAgent \<Rightarrow> (js_error + Bounty list) \<times> BountyAgent" where
  "listOpenBounties W a =
     (case listBounties W a of
        (Inl e, a') \<Rightarrow> (Inl e, a')
      | (Inr bounties, a') \<Rightarrow> (Inr (filter (\<lambda>b. status b = ''open'') bounties), a'))"

definition client_claimBounty ::
  "world \<Rightarrow> string \<Rightarrow> string \<Rightarrow> BountyAgent \<Rightarrow> (js_error + string) \<times> BountyAgent" where
  "client_claimBounty W i wallet a =
     request W (status_reply W)
       (HttpPost (client_apiBase a @ ''/bounties/'' @ i @ ''/claim'') (ClaimBody wallet)) a"

definition client_submitBounty ::
  "world \<Rightarrow> string \<Rightarrow> string \<Rightarrow> string \<Rightarrow> string \<Rightarrow> BountyAgent
     \<Rightarrow> (js_error + string) \<times> BountyAgent" where
  "client_submitBounty W i wallet subm pf a =
     request W (status_reply W)
       (HttpPost (client_apiBase a @ ''/bounties/'' @ i @ ''/submit'')
          (SubmitBody wallet subm pf)) a"

section \<open>The agent (agent.ts)\<close>

subsection \<open>chat\<close>

definition chat ::
  "world \<Rightarrow> OpenRouterMessage list \<Rightarrow> BountyAgent \<Rightarrow> (js_error + string) \<times> BountyAgent" where
  "chat W messages a =
     (let a' = await W (HttpPost OPENROUTER_API
                 (ChatBody (openRouterApiKey (config a)) (model (config a)) messages)) a
      in ((case chat_reply W (trace a') of
             Rejected m \<Rightarrow> Inl (Error m)
           | Responded st txt js \<Rightarrow>
               if \<not> res_ok st
               then Inl (Error (''OpenRouter API '' @ show_nat st @ '': '' @ txt))
               else (case js of
                       Inl e \<Rightarrow> Inl e
                     | Inr data \<Rightarrow>
                         Inr (case choices data of [] \<Rightarrow> [] | c # _ \<Rightarrow> c))), a'))"

subsection \<open>discoverBounties\<close>

definition tracked :: "BountyAgent \<Rightarrow> string set" where
  "tracked a =
     claimedBounties (state a) \<union> completedBounties (state a) \<union> skippedBounties (state a)"

definition discoverBounties ::
  "world \<Rightarrow> BountyAgent \<Rightarrow> (js_error + Bounty list) \<times> BountyAgent" where
  "discoverBounties W a =
     (case listOpenBounties W a of
        (Inl e, a') \<Rightarrow> (Inl e, a')
      | (Inr bounties, a') \<Rightarrow>
          (Inr (filter (\<lambda>b. id' b \<notin> claimedBounties (state a')
                           \<and> id' b \<notin> completedBounties (state a')
                           \<and> id' b \<notin> skippedBounties (state a')) bounties), a'))"

subsection \<open>evaluateBounty\<close>

text \<open>
  \<open>response.match(/\{[\s\S]*\}/)\<close>, written as the backtracking search it is. At a
  position after the opening brace the starred class first takes the next character and
  the rest is tried; only if that fails is the character itself tried as the closing
  brace.
\<close>

fun star_then_close :: "string \<Rightarrow> string option" where
  "star_then_close [] = None"
| "star_then_close (c # cs) =
     (case star_then_close cs of
        Some m \<Rightarrow> Some (c # m)
      | None \<Rightarrow> if c = CHR ''}'' then Some [c] else None)"

text \<open>The match starts at the leftmost position where the pattern matches.\<close>

fun match_braces :: "string \<Rightarrow> string option" where
  "match_braces [] = None"
| "match_braces (c # cs) =
     (if c = CHR ''{''
      then (case star_then_close cs of
              Some m \<Rightarrow> Some (c # m)
            | None \<Rightarrow> match_braces cs)
      else match_braces cs)"

definition nl :: string where
  "nl = [CHR 0x0A]"

definition evaluation_prompt :: "BountyAgent \<Rightarrow> Bounty \<Rightarrow> string" where
  \<open>evaluation_prompt a bounty =
     ''You are an AI agent evaluating whether to work on a bounty. Analyze the bounty and determine if the given skills are sufficient.''
     @ nl @ nl
     @ ''Agent skills: ''
     @ or_str (Some (join '', '' (skills (config a)))) ''general software development''
     @ nl @ nl
     @ ''Bounty details:'' @ nl
     @ ''- Title: '' @ title bounty @ nl
     @ ''- Description: '' @ or_str (Some (description bounty)) ''No description'' @ nl
     @ ''- Tags: '' @ join '', '' (tags bounty) @ nl
     @ ''- Reward: '' @ rewardFormatted bounty @ nl @ nl
     @ ''Respond in JSON format only:'' @ nl
     @ ''{'' @ nl
     @ ''  "suitable": true/false,'' @ nl
     @ ''  "confidence": 0.0-1.0,'' @ nl
     @ ''  "reasoning": "brief explanation",'' @ nl
     @ ''  "estimatedEffort": "low/medium/high"'' @ nl
     @ ''}''\<close>

definition evaluation_messages :: "BountyAgent \<Rightarrow> Bounty \<Rightarrow> OpenRouterMessage list" where
  "evaluation_messages a bounty =
     [\<lparr> role = System,
        content = ''You are an AI agent that evaluates bounty suitability. Always respond with valid JSON.'' \<rparr>,
      \<lparr> role = User, content = evaluation_prompt a bounty \<rparr>]"

text \<open>The body of the \<open>try\<close> block: any of its three steps may throw.\<close>

definition evaluateBounty_try ::
  "world \<Rightarrow> Bounty \<Rightarrow> BountyAgent \<Rightarrow> (js_error + EvaluationResult) \<times> BountyAgent" where
  "evaluateBounty_try W bounty a =
     (case chat W (evaluation_messages a bounty) a of
        (Inl e, a') \<Rightarrow> (Inl e, a')
      | (Inr response, a') \<Rightarrow>
          (case match_braces response of
             None \<Rightarrow>
               (Inr \<lparr> suitable = False, confidence = Num 0,
                      reasoning = ''Failed to parse AI evaluation'',
                      estimatedEffort = ''high'' \<rparr>, a')
           | Some jsonMatch \<Rightarrow> (JSON_parse W jsonMatch, a')))"

text \<open>The \<open>try\<close> with its \<open>catch\<close>.\<close>

definition evaluateBounty ::
  "world \<Rightarrow> Bounty \<Rightarrow> BountyAgent \<Rightarrow> (js_error + EvaluationResult) \<times> BountyAgent" where
  "evaluateBounty W bounty a =
     (case evaluateBounty_try W bounty a of
        (Inl err, a') \<Rightarrow>
          (Inr \<lparr> suitable = False, confidence = Num 0,
                 reasoning = ''Evaluation error: '' @ message err,
                 estimatedEffort = ''high'' \<rparr>, a')
      | (Inr r, a') \<Rightarrow> (Inr r, a'))"

subsection \<open>claimBounty, generateWorkPlan, submitWork\<close>

definition add_claimed :: "string \<Rightarrow> BountyAgent \<Rightarrow> BountyAgent" where
  "add_claimed i a =
     a\<lparr>state := (state a)\<lparr>claimedBounties := insert i (claimedBounties (state a))\<rparr>\<rparr>"

definition add_completed :: "string \<Rightarrow> BountyAgent \<Rightarrow> BountyAgent" where
  "add_completed i a =
     a\<lparr>state := (state a)\<lparr>completedBounties := insert i (completedBounties (state a))\<rparr>\<rparr>"

definition add_skipped :: "string \<Rightarrow> BountyAgent \<Rightarrow> BountyAgent" where
  "add_skipped i a =
     a\<lparr>state := (state a)\<lparr>skippedBounties := insert i (skippedBounties (state a))\<rparr>\<rparr>"

definition claimBounty ::
  "world \<Rightarrow> string \<Rightarrow> BountyAgent \<Rightarrow> (js_error + bool) \<times> BountyAgent" where
  "claimBounty W i a =
     (if dryRun (config a) then (Inr True, add_claimed i a)
      else (case client_claimBounty W i (walletAddress (config a)) a of
              (Inr result, a') \<Rightarrow> (Inr True, add_claimed i a')
            | (Inl err, a') \<Rightarrow> (Inr False, a')))"

definition workplan_messages :: "Bounty \<Rightarrow> OpenRouterMessage list" where
  "workplan_messages bounty =
     [\<lparr> role = System,
        content = ''You are an AI agent completing bounty work. Provide a clear, detailed description of the work you would do to complete this bounty.'' \<rparr>,
      \<lparr> role = User,
        content =
          ''Generate a detailed work completion plan for this bounty:'' @ nl @ nl
          @ ''Title: '' @ title bounty @ nl
          @ ''Description: '' @ or_str (Some (description bounty)) ''No description'' @ nl
          @ ''Tags: '' @ join '', '' (tags bounty) @ nl
          @ ''Reward: '' @ rewardFormatted bounty @ nl @ nl
          @ ''Describe what you built/completed and how it meets the requirements. Be specific and professional.'' \<rparr>]"

definition generateWorkPlan ::
  "world \<Rightarrow> Bounty \<Rightarrow> BountyAgent \<Rightarrow> (js_error + string) \<times> BountyAgent" where
  "generateWorkPlan W bounty a = chat W (workplan_messages bounty) a"

definition submitWork ::
  "world \<Rightarrow> string \<Rightarrow> string \<Rightarrow> string \<Rightarrow> BountyAgent
     \<Rightarrow> (js_error + SubmissionResult) \<times> BountyAgent" where
  "submitWork W i subm pf a =
     (if dryRun (config a)
      then (Inr \<lparr> bountyId = i, submission = subm, proof_url = pf, status' = ''dry_run'' \<rparr>,
            add_completed i a)
      else (case client_submitBounty W i (walletAddress (config a)) subm pf a of
              (Inr result, a') \<Rightarrow>
                (Inr \<lparr> bountyId = i, submission = subm, proof_url = pf, status' = result \<rparr>,
                 add_completed i a')
            | (Inl err, a') \<Rightarrow>
                (Inr \<lparr> bountyId = i, submission = subm, proof_url = pf,
                       status' = ''error: '' @ message err \<rparr>, a')))"

subsection \<open>runCycle\<close>

text \<open>Step 2, the loop over the first five discovered bounties.\<close>

fun evaluate_loop ::
  "world \<Rightarrow> Bounty list \<Rightarrow> BountyAgent
     \<Rightarrow> (js_error + (Bounty \<times> EvaluationResult) list) \<times> BountyAgent" where
  "evaluate_loop W [] a = (Inr [], a)"
| "evaluate_loop W (bounty # rest) a =
     (case evaluateBounty W bounty a of
        (Inl e, a1) \<Rightarrow> (Inl e, a1)
      | (Inr evaluation, a1) \<Rightarrow>
          (let a2 = (if \<not> suitable evaluation then add_skipped (id' bounty) a1 else a1)
           in (case evaluate_loop W rest a2 of
                 (Inl e, a3) \<Rightarrow> (Inl e, a3)
               | (Inr evaluations, a3) \<Rightarrow> (Inr ((bounty, evaluation) # evaluations), a3))))"

text \<open>\<open>Number(bounty.reward || 0) / 1e6\<close>\<close>

definition reward_usdc :: "world \<Rightarrow> Bounty \<Rightarrow> jsnum" where
  "reward_usdc W bounty =
     js_div (round_to_double W)
       (if truthy_str (reward bounty) then js_Number W (reward bounty) else Num 0)
       (Num 1000000)"

definition proof_of :: "BountyAgent \<Rightarrow> Bounty \<Rightarrow> string" where
  "proof_of a bounty =
     ''https://github.com/'' @ take 8 (walletAddress (config a)) @ ''/bounty-'' @ id' bounty"

text \<open>Steps 3 to 5, the loop over the suitable evaluations.\<close>

fun claim_loop ::
  "world \<Rightarrow> (Bounty \<times> EvaluationResult) list \<Rightarrow> BountyAgent
     \<Rightarrow> (js_error + unit) \<times> BountyAgent" where
  "claim_loop W [] a = (Inr (), a)"
| "claim_loop W ((bounty, evaluation) # rest) a =
     (if js_gt (reward_usdc W bounty) (maxReward (config a)) then claim_loop W rest a
      else (case claimBounty W (id' bounty) a of
              (Inl e, a1) \<Rightarrow> (Inl e, a1)
            | (Inr claimed, a1) \<Rightarrow>
                if \<not> claimed then claim_loop W rest a1
                else (case generateWorkPlan W bounty a1 of
                        (Inl e, a2) \<Rightarrow> (Inl e, a2)
                      | (Inr workPlan, a2) \<Rightarrow>
                          (case submitWork W (id' bounty) workPlan (proof_of a2 bounty) a2 of
                             (Inl e, a3) \<Rightarrow> (Inl e, a3)
                           | (Inr result, a3) \<Rightarrow> claim_loop W rest a3))))"

text \<open>
  \<open>e.eval.suitable && e.eval.confidence >= 0.6\<close>, with the double that the literal
  \<open>0.6\<close> denotes.
\<close>

definition is_suitable :: "Bounty \<times> EvaluationResult \<Rightarrow> bool" where
  "is_suitable e =
     (suitable (snd e) \<and> js_ge (confidence (snd e)) (Num (5404319552844595 / 2 ^ 53)))"

definition runCycle :: "world \<Rightarrow> BountyAgent \<Rightarrow> (js_error + unit) \<times> BountyAgent" where
  "runCycle W a =
     (case discoverBounties W a of
        (Inl e, a1) \<Rightarrow> (Inl e, a1)
      | (Inr bounties, a1) \<Rightarrow>
          if length bounties = 0 then (Inr (), a1)
          else (case evaluate_loop W (take 5 bounties) a1 of
                  (Inl e, a2) \<Rightarrow> (Inl e, a2)
                | (Inr evaluations, a2) \<Rightarrow>
                    claim_loop W (filter is_suitable evaluations) a2))"

text \<open>
  Steps 1 and 2 alone: the \<open>evaluations\<close> array of a cycle and the agent as the claim
  step finds it. A cycle is this phase followed by the claim loop over the suitable
  evaluations (lemma \<open>runCycle_phases\<close>).
\<close>

definition evaluate_phase ::
  "world \<Rightarrow> BountyAgent
     \<Rightarrow> (js_error + (Bounty \<times> EvaluationResult) list) \<times> BountyAgent" where
  "evaluate_phase W a =
     (case discoverBounties W a of
        (Inl e, a1) \<Rightarrow> (Inl e, a1)
      | (Inr bounties, a1) \<Rightarrow> evaluate_loop W (take 5 bounties) a1)"

text \<open>The \<open>evaluations\<close> array of the cycle that starts at \<open>a\<close> (empty if discovery throws).\<close>

definition cycle_evaluations ::
  "world \<Rightarrow> BountyAgent \<Rightarrow> (Bounty \<times> EvaluationResult) list" where
  "cycle_evaluations W a =
     (case fst (evaluate_phase W a) of Inl e \<Rightarrow> [] | Inr evaluations \<Rightarrow> evaluations)"


subsection \<open>startLoop\<close>

text \<open>
  One turn of the \<open>while\<close> loop: the cycle inside \<open>try\<close>, the \<open>catch\<close> that only logs,
  then the timer.
\<close>

definition loop_turn :: "world \<Rightarrow> BountyAgent \<Rightarrow> BountyAgent" where
  "loop_turn W a =
     (let a1 = (case runCycle W a of
                  (Inl err, a') \<Rightarrow> a'
                | (Inr u, a') \<Rightarrow> a')
      in await W (Sleep (pollInterval (config a1))) a1)"

text \<open>
  The loop runs for as long as the flag is set, which may be forever; \<open>n\<close> bounds the
  number of turns observed. \<open>StillRunning\<close> says that the loop has not returned within
  \<open>n\<close> turns.
\<close>

datatype loop_outcome = Returned | StillRunning

fun while_running :: "nat \<Rightarrow> world \<Rightarrow> BountyAgent \<Rightarrow> loop_outcome \<times> BountyAgent" where
  "while_running 0 W a = (if isRunning (state a) then (StillRunning, a) else (Returned, a))"
| "while_running (Suc n) W a =
     (if isRunning (state a) then while_running n W (loop_turn W a) else (Returned, a))"

definition startLoop :: "nat \<Rightarrow> world \<Rightarrow> BountyAgent \<Rightarrow> loop_outcome \<times> BountyAgent" where
  "startLoop n W a =
     (if isRunning (state a) then (Returned, a)
      else while_running n W (a\<lparr>state := (state a)\<lparr>isRunning := True\<rparr>\<rparr>))"

subsection \<open>The operations of the agent as a transition relation\<close>

inductive agent_op :: "world \<Rightarrow> BountyAgent \<Rightarrow> BountyAgent \<Rightarrow> bool" for W :: world where
  op_discover: "agent_op W a (snd (discoverBounties W a))"
| op_evaluate: "agent_op W a (snd (evaluateBounty W b a))"
| op_claim: "agent_op W a (snd (claimBounty W i a))"
| op_workplan: "agent_op W a (snd (generateWorkPlan W b a))"
| op_submit: "agent_op W a (snd (submitWork W i subm pf a))"
| op_cycle: "agent_op W a (snd (runCycle W a))"
| op_loop: "agent_op W a (snd (startLoop n W a))"
| op_stop: "agent_op W a (stop a)"

section \<open>The specification's reading of the JSON extraction\<close>

text \<open>
  The first balanced span, in the words of the specification: from an opening brace to
  the closing brace that brings the nesting depth back to zero.
\<close>

fun balanced_rest :: "nat \<Rightarrow> string \<Rightarrow> string option" where
  "balanced_rest d [] = None"
| "balanced_rest d (c # cs) =
     (if c = CHR ''{'' then map_option (Cons c) (balanced_rest (Suc d) cs)
      else if c = CHR ''}''
      then (if d = 0 then Some [c] else map_option (Cons c) (balanced_rest (d - 1) cs))
      else map_option (Cons c) (balanced_rest d cs))"

fun first_balanced_span :: "string \<Rightarrow> string option" where
  "first_balanced_span [] = None"
| "first_balanced_span (c # cs) =
     (if c = CHR ''{''
      then (case balanced_rest 0 cs of
              Some m \<Rightarrow> Some (c # m)
            | None \<Rightarrow> first_balanced_span cs)
      else first_balanced_span cs)"

section \<open>Auxiliary notions for the proofs\<close>

text \<open>
  The agent \<open>a'\<close> continues \<open>a\<close>: same configuration, the three sets only larger, the
  history only longer.
\<close>

definition grows :: "BountyAgent \<Rightarrow> BountyAgent \<Rightarrow> bool" where
  "grows a a' =
     (config a' = config a
      \<and> claimedBounties (state a) \<subseteq> claimedBounties (state a')
      \<and> completedBounties (state a) \<subseteq> completedBounties (state a')
      \<and> skippedBounties (state a) \<subseteq> skippedBounties (state a')
      \<and> (\<exists>t. trace a' = trace a @ t))"

text \<open>The request by which the agent \<open>a\<close> claims the bounty \<open>i\<close> on the listing service.\<close>

definition claim_request :: "BountyAgent \<Rightarrow> string \<Rightarrow> event" where
  "claim_request a i =
     HttpPost (client_apiBase a @ ''/bounties/'' @ i @ ''/claim'')
       (ClaimBody (walletAddress (config a)))"

text \<open>The events the agent \<open>a'\<close> has recorded after the agent \<open>a\<close>.\<close>

definition events_since :: "BountyAgent \<Rightarrow> BountyAgent \<Rightarrow> event list" where
  "events_since a a' = drop (length (trace a)) (trace a')"

text \<open>
  Between \<open>a\<close> and \<open>a'\<close> the agent has claimed at most the ids in \<open>C\<close> (by the set or by
  a request), completed at most the ids in \<open>D\<close> and skipped at most the ids in \<open>S\<close>.
\<close>

definition adds ::
  "string set \<Rightarrow> string set \<Rightarrow> string set \<Rightarrow> BountyAgent \<Rightarrow> BountyAgent \<Rightarrow> bool" where
  "adds C D S a a' =
     (grows a a'
      \<and> claimedBounties (state a') \<subseteq> claimedBounties (state a) \<union> C
      \<and> completedBounties (state a') \<subseteq> completedBounties (state a) \<union> D
      \<and> skippedBounties (state a') \<subseteq> skippedBounties (state a) \<union> S
      \<and> {i. claim_request a i \<in> set (events_since a a')} \<subseteq> C)"

text \<open>The ids of the evaluations judged unsuitable, and of those within the reward ceiling.\<close>

definition unsuitable_ids :: "(Bounty \<times> EvaluationResult) list \<Rightarrow> string set" where
  "unsuitable_ids evs = {id' (fst e) | e. e \<in> set evs \<and> \<not> suitable (snd e)}"

definition affordable_ids ::
  "world \<Rightarrow> BountyAgent \<Rightarrow> (Bounty \<times> EvaluationResult) list \<Rightarrow> string set" where
  "affordable_ids W a es =
     {id' (fst e) | e. e \<in> set es \<and> \<not> js_gt (reward_usdc W (fst e)) (maxReward (config a))}"


section \<open>Sample data\<close>

definition task :: "string \<Rightarrow> string \<Rightarrow> string \<Rightarrow> Bounty" where
  "task i t r =
     \<lparr> id' = i, title = t, description = [], status = ''open'', reward = r,
       rewardFormatted = [], tags = [], claimedBy = None, createdAt = None,
       completedAt = None \<rparr>"

text \<open>
  The evaluation that the sample \<open>JSON.parse\<close> makes of the two replies below; its
  confidence is the double that \<open>0.9\<close> denotes.
\<close>

definition verdict :: "bool \<Rightarrow> EvaluationResult" where
  "verdict s =
     \<lparr> suitable = s, confidence = Num (8106479329266893 / 2 ^ 53), reasoning = ''r'',
       estimatedEffort = ''low'' \<rparr>"

definition says :: "string \<Rightarrow> OpenRouterResponse fetch_result" where
  "says txt = Responded 200 [] (Inr \<lparr> choices = [txt] \<rparr>)"

definition YES :: string where
  \<open>YES = ''{"suitable":true,"confidence":0.9}''\<close>

definition NO :: string where
  \<open>NO = ''{"suitable":false,"confidence":0.9}''\<close>

text \<open>
  A world in which the listing service and the oracle answer as given, every claim and
  submission is accepted, nobody calls \<open>stop()\<close>, and the two built-in functions are
  known on the few strings the examples use. \<open>Number\<close> gives \<open>50000000\<close>, \<open>200000000\<close>
  or \<open>NaN\<close> here, so the only quotients by \<open>1e6\<close> that are ever rounded in this world are
  \<open>0\<close>, \<open>50\<close> and \<open>200\<close>; they are doubles, and rounding leaves them as they are.
\<close>

definition sample_world ::
  "Bounty list fetch_result \<Rightarrow> (event list \<Rightarrow> OpenRouterResponse fetch_result) \<Rightarrow> world" where
  "sample_world listing oracle =
     \<lparr> bounties_reply = (\<lambda>h. listing),
       status_reply = (\<lambda>h. Responded 200 [] (Inr ''claimed'')),
       chat_reply = oracle,
       stop_called = (\<lambda>h. False),
       js_Number = (\<lambda>s. if s = ''50000000'' then Num 50000000
                         else if s = ''200000000'' then Num 200000000 else NaN),
       JSON_parse = (\<lambda>s. if s = YES then Inr (verdict True)
                          else if s = NO then Inr (verdict False)
                          else Inl (Error ''Unexpected token'')),
       round_to_double = (\<lambda>x. Num x) \<rparr>"

definition sample_agent :: "bool \<Rightarrow> BountyAgent" where
  "sample_agent dry =
     new_BountyAgent
       \<lparr> openRouterApiKey_arg = ''key'', walletAddress_arg = ''0x0123456789'',
         model_arg = None, skills_arg = None, maxReward_arg = None, apiBase_arg = None,
         dryRun_arg = Some dry, pollInterval_arg = None \<rparr>"

text \<open>Six open bounties, all of which the oracle judges unsuitable.\<close>

definition six_tasks :: "Bounty list" where
  "six_tasks =
     [task ''1'' ''a'' ''1'', task ''2'' ''b'' ''1'', task ''3'' ''c'' ''1'',
      task ''4'' ''d'' ''1'', task ''5'' ''e'' ''1'', task ''6'' ''f'' ''1'']"

definition six_world :: world where
  "six_world = sample_world (Responded 200 [] (Inr six_tasks)) (\<lambda>h. says NO)"


definition twin_ceiling_world :: world where
  "twin_ceiling_world =
     sample_world
       (Responded 200 []
          (Inr [task ''1'' ''Fix bug'' ''200000000'', task ''1'' ''Fix bug again'' ''50000000'']))
       (\<lambda>h. says YES)"


definition costly_world :: world where
  "costly_world =
     sample_world (Responded 200 [] (Inr [task ''1'' ''Fix bug'' ''200000000'']))
       (\<lambda>h. says YES)"

text \<open>
  A listing of one suitable bounty in a world whose oracle answers the evaluation (the
  second event of the history) and rejects every later request, so that the generation of
  the work plan throws.
\<close>

definition planless_world :: world where
  "planless_world =
     sample_world (Responded 200 [] (Inr [task ''1'' ''Fix bug'' ''50000000'']))
       (\<lambda>h. if length h = 2 then says YES else Rejected ''oracle down'')"



section \<open>Basic facts about the operations\<close>

lemma await_config [simp]: "config (await W ev a) = config a"
  by (simp add: await_def stop_def Let_def)

lemma await_sets [simp]:
  "claimedBounties (state (await W ev a)) = claimedBounties (state a)"
  "completedBounties (state (await W ev a)) = completedBounties (state a)"
  "skippedBounties (state (await W ev a)) = skippedBounties (state a)"
  by (simp_all add: await_def stop_def Let_def)

lemma await_trace [simp]: "trace (await W ev a) = trace a @ [ev]"
  by (simp add: await_def stop_def Let_def)

lemma await_tracked [simp]: "tracked (await W ev a) = tracked a"
  by (simp add: tracked_def)

lemma client_apiBase_await [simp]: "client_apiBase (await W ev a) = client_apiBase a"
  by (simp add: client_apiBase_def)

lemma snd_request [simp]: "snd (request W r ev a) = await W ev a"
  by (simp add: request_def Let_def)

lemma snd_chat [simp]:
  "snd (chat W ms a) =
     await W (HttpPost OPENROUTER_API
       (ChatBody (openRouterApiKey (config a)) (model (config a)) ms)) a"
  by (simp add: chat_def Let_def)

lemma snd_listBounties [simp]:
  "snd (listBounties W a) = await W (HttpGet (client_apiBase a @ ''/bounties'')) a"
  by (simp add: listBounties_def split: prod.splits sum.splits)
     (metis snd_conv snd_request)+

lemma snd_listOpenBounties [simp]:
  "snd (listOpenBounties W a) = await W (HttpGet (client_apiBase a @ ''/bounties'')) a"
  by (simp add: listOpenBounties_def split: prod.splits sum.splits)
     (metis snd_conv snd_listBounties)+

lemma snd_discoverBounties [simp]:
  "snd (discoverBounties W a) = await W (HttpGet (client_apiBase a @ ''/bounties'')) a"
  by (simp add: discoverBounties_def split: prod.splits sum.splits)
     (metis snd_conv snd_listOpenBounties)+

lemma snd_evaluateBounty_try [simp]:
  "snd (evaluateBounty_try W b a) =
     await W (HttpPost OPENROUTER_API
       (ChatBody (openRouterApiKey (config a)) (model (config a)) (evaluation_messages a b))) a"
proof -
  obtain r a' where c: "chat W (evaluation_messages a b) a = (r, a')"
    by force
  with snd_chat [of W "evaluation_messages a b" a] show ?thesis
    by (auto simp: evaluateBounty_try_def split: sum.splits option.splits)
qed

lemma snd_evaluateBounty [simp]:
  "snd (evaluateBounty W b a) =
     await W (HttpPost OPENROUTER_API
       (ChatBody (openRouterApiKey (config a)) (model (config a)) (evaluation_messages a b))) a"
proof -
  obtain r a' where c: "evaluateBounty_try W b a = (r, a')"
    by force
  with snd_evaluateBounty_try [of W b a] show ?thesis
    by (auto simp: evaluateBounty_def split: sum.splits)
qed

lemma evaluateBounty_Inr: "\<exists>ev. fst (evaluateBounty W b a) = Inr ev"
  by (simp add: evaluateBounty_def split: prod.splits sum.splits)


lemma add_simps [simp]:
  "config (add_claimed i a) = config a" "trace (add_claimed i a) = trace a"
  "claimedBounties (state (add_claimed i a)) = insert i (claimedBounties (state a))"
  "completedBounties (state (add_claimed i a)) = completedBounties (state a)"
  "skippedBounties (state (add_claimed i a)) = skippedBounties (state a)"
  "config (add_completed i a) = config a" "trace (add_completed i a) = trace a"
  "claimedBounties (state (add_completed i a)) = claimedBounties (state a)"
  "completedBounties (state (add_completed i a)) = insert i (completedBounties (state a))"
  "skippedBounties (state (add_completed i a)) = skippedBounties (state a)"
  "config (add_skipped i a) = config a" "trace (add_skipped i a) = trace a"
  "claimedBounties (state (add_skipped i a)) = claimedBounties (state a)"
  "completedBounties (state (add_skipped i a)) = completedBounties (state a)"
  "skippedBounties (state (add_skipped i a)) = insert i (skippedBounties (state a))"
  by (simp_all add: add_claimed_def add_completed_def add_skipped_def)

lemma client_apiBase_add [simp]:
  "client_apiBase (add_claimed i a) = client_apiBase a"
  "client_apiBase (add_completed i a) = client_apiBase a"
  "client_apiBase (add_skipped i a) = client_apiBase a"
  by (simp_all add: client_apiBase_def)

lemma grows_refl [simp]: "grows a a"
  by (simp add: grows_def)

lemma grows_trans: "grows a b \<Longrightarrow> grows b c \<Longrightarrow> grows a c"
  by (auto simp: grows_def)

lemma grows_await [simp]: "grows a (await W ev a)"
  by (simp add: grows_def)

lemma grows_add [simp]:
  "grows a (add_claimed i a)" "grows a (add_completed i a)" "grows a (add_skipped i a)"
  by (auto simp: grows_def)

lemma grows_stop [simp]: "grows a (stop a)"
  by (simp add: grows_def stop_def)

lemma grows_discoverBounties: "grows a (snd (discoverBounties W a))"
  by simp

lemma grows_evaluateBounty: "grows a (snd (evaluateBounty W b a))"
  by simp

lemma grows_chat: "grows a (snd (chat W ms a))"
  by simp

lemma grows_generateWorkPlan: "grows a (snd (generateWorkPlan W b a))"
  by (simp add: generateWorkPlan_def)

lemma snd_client_claimBounty [simp]:
  "snd (client_claimBounty W i w a) =
     await W (HttpPost (client_apiBase a @ ''/bounties/'' @ i @ ''/claim'') (ClaimBody w)) a"
  by (simp add: client_claimBounty_def)

lemma snd_client_submitBounty [simp]:
  "snd (client_submitBounty W i w subm pf a) =
     await W (HttpPost (client_apiBase a @ ''/bounties/'' @ i @ ''/submit'')
       (SubmitBody w subm pf)) a"
  by (simp add: client_submitBounty_def)

lemma grows_claimBounty: "grows a (snd (claimBounty W i a))"
proof -
  obtain r a' where c: "client_claimBounty W i (walletAddress (config a)) a = (r, a')"
    by force
  then have "a' = await W (HttpPost (client_apiBase a @ ''/bounties/'' @ i @ ''/claim'')
      (ClaimBody (walletAddress (config a)))) a"
    using snd_client_claimBounty [of W i "walletAddress (config a)" a] by simp
  then have "grows a a'" "grows a' (add_claimed i a')"
    by simp_all
  then show ?thesis
    using c by (auto simp: claimBounty_def split: sum.splits intro: grows_trans)
qed

lemma grows_submitWork: "grows a (snd (submitWork W i subm pf a))"
proof -
  obtain r a' where c: "client_submitBounty W i (walletAddress (config a)) subm pf a = (r, a')"
    by force
  then have "a' = await W (HttpPost (client_apiBase a @ ''/bounties/'' @ i @ ''/submit'')
      (SubmitBody (walletAddress (config a)) subm pf)) a"
    using snd_client_submitBounty [of W i "walletAddress (config a)" subm pf a] by simp
  then have "grows a a'" "grows a' (add_completed i a')"
    by simp_all
  then show ?thesis
    using c by (auto simp: submitWork_def split: sum.splits intro: grows_trans)
qed

lemma grows_evaluate_loop: "grows a (snd (evaluate_loop W bs a))"
proof (induction bs arbitrary: a)
  case Nil
  show ?case by simp
next
  case (Cons b bs)
  obtain r a1 where e: "evaluateBounty W b a = (r, a1)"
    by force
  then have g1: "grows a a1"
    using grows_evaluateBounty [of a W b] by simp
  show ?case
  proof (cases r)
    case (Inl err)
    with e g1 show ?thesis by simp
  next
    case (Inr ev)
    define a2 where "a2 = (if \<not> suitable ev then add_skipped (id' b) a1 else a1)"
    have g2: "grows a a2"
      using g1 grows_add(3) [of a1 "id' b"] by (auto simp: a2_def intro: grows_trans)
    obtain r3 a3 where l: "evaluate_loop W bs a2 = (r3, a3)"
      by force
    have "grows a2 a3"
      using Cons.IH [of a2] l by simp
    with g2 have "grows a a3"
      by (rule grows_trans)
    then show ?thesis
      using e Inr l [unfolded a2_def] by (cases r3) (simp_all add: Let_def)
  qed
qed

lemma grows_claim_loop: "grows a (snd (claim_loop W es a))"
proof (induction es arbitrary: a)
  case Nil
  show ?case by simp
next
  case (Cons e es)
  obtain b ev where [simp]: "e = (b, ev)"
    by (cases e)
  obtain r1 a1 where c: "claimBounty W (id' b) a = (r1, a1)"
    by force
  then have g1: "grows a a1"
    using grows_claimBounty [of a W "id' b"] by simp
  obtain r2 a2 where w: "generateWorkPlan W b a1 = (r2, a2)"
    by force
  then have g2: "grows a a2"
    using grows_generateWorkPlan [of a1 W b] g1 by (auto intro: grows_trans)
  obtain r3 a3 where s: "submitWork W (id' b) (projr r2) (proof_of a2 b) a2 = (r3, a3)"
    by force
  then have g3: "grows a a3"
    using grows_submitWork [of a2 W "id' b" "projr r2" "proof_of a2 b"] g2
    by (auto intro: grows_trans)
  have "grows a (snd (claim_loop W es a))" "grows a (snd (claim_loop W es a1))"
    "grows a (snd (claim_loop W es a3))"
    using Cons.IH [of a] Cons.IH [of a1] Cons.IH [of a3] g1 g3
    by (auto intro: grows_trans)
  then show ?case
    using c w s g1 g2 g3 by (auto split: sum.splits)
qed

lemma grows_runCycle: "grows a (snd (runCycle W a))"
proof -
  obtain r1 a1 where d: "discoverBounties W a = (r1, a1)"
    by force
  then have g1: "grows a a1"
    using grows_discoverBounties [of a W] by simp
  show ?thesis
  proof (cases r1)
    case (Inl e)
    with d g1 show ?thesis by (simp add: runCycle_def)
  next
    case (Inr bs)
    obtain r2 a2 where e: "evaluate_loop W (take 5 bs) a1 = (r2, a2)"
      by force
    then have g2: "grows a a2"
      using grows_evaluate_loop [of a1 W "take 5 bs"] g1 by (auto intro: grows_trans)
    have "grows a (snd (claim_loop W es a2))" for es
      using grows_claim_loop [of a2 W es] g2 by (auto intro: grows_trans)
    then show ?thesis
      using d Inr e g1 g2 by (auto simp: runCycle_def split: sum.splits)
  qed
qed

lemma grows_loop_turn: "grows a (loop_turn W a)"
proof -
  have "loop_turn W a =
      await W (Sleep (pollInterval (config (snd (runCycle W a))))) (snd (runCycle W a))"
    by (simp add: loop_turn_def split: prod.splits sum.splits)
  then show ?thesis
    using grows_runCycle [of a W] grows_await grows_trans by metis
qed

lemma grows_while_running: "grows a (snd (while_running n W a))"
proof (induction n arbitrary: a)
  case 0
  show ?case by simp
next
  case (Suc n)
  show ?case
    using Suc.IH [of "loop_turn W a"] grows_loop_turn [of a W]
    by (auto intro: grows_trans)
qed

lemma grows_startLoop: "grows a (snd (startLoop n W a))"
proof -
  have "grows a (a\<lparr>state := (state a)\<lparr>isRunning := True\<rparr>\<rparr>)"
    by (simp add: grows_def)
  then show ?thesis
    using grows_while_running grows_trans by (auto simp: startLoop_def)
qed

lemma grows_agent_op: "agent_op W a a' \<Longrightarrow> grows a a'"
  by (induction rule: agent_op.induct)
     (simp_all add: grows_claimBounty grows_generateWorkPlan grows_submitWork grows_runCycle
        grows_startLoop)

lemma grows_rtranclp: "rtranclp (agent_op W) a a' \<Longrightarrow> grows a a'"
  by (induction rule: rtranclp_induct) (auto dest: grows_agent_op intro: grows_trans)


subsection \<open>What an operation may add to the sets\<close>

lemma claim_request_grows: "grows a a' \<Longrightarrow> claim_request a' i = claim_request a i"
  by (simp add: grows_def claim_request_def client_apiBase_def)

lemma claim_request_inject [simp]: "claim_request a i = claim_request a j \<longleftrightarrow> i = j"
  by (simp add: claim_request_def)

lemma events_since_self [simp]: "events_since a a = []"
  by (simp add: events_since_def)

lemma events_since_await [simp]: "events_since a (await W ev a) = [ev]"
  by (simp add: events_since_def)

lemma events_since_add [simp]:
  "events_since a (add_claimed i a') = events_since a a'"
  "events_since a (add_completed i a') = events_since a a'"
  "events_since a (add_skipped i a') = events_since a a'"
  by (simp_all add: events_since_def)

lemma events_since_trans:
  "grows a a' \<Longrightarrow> grows a' a'' \<Longrightarrow>
   events_since a a'' = events_since a a' @ events_since a' a''"
  by (auto simp: grows_def events_since_def)

lemma adds_refl [simp]: "adds C D S a a"
  by (simp add: adds_def)

lemma adds_grows: "adds C D S a a' \<Longrightarrow> grows a a'"
  by (simp add: adds_def)

lemma adds_mono:
  "adds C D S a a' \<Longrightarrow> C \<subseteq> C' \<Longrightarrow> D \<subseteq> D' \<Longrightarrow> S \<subseteq> S' \<Longrightarrow> adds C' D' S' a a'"
  unfolding adds_def by blast

lemma adds_trans:
  assumes "adds C D S a a'" and "adds C D S a' a''"
  shows "adds C D S a a''"
proof -
  have g: "grows a a'" "grows a' a''"
    using assms by (simp_all add: adds_def)
  then have ev: "events_since a a'' = events_since a a' @ events_since a' a''"
    by (rule events_since_trans)
  have "claim_request a' i = claim_request a i" for i
    using g(1) by (rule claim_request_grows)
  then have "{i. claim_request a i \<in> set (events_since a a'')} \<subseteq> C"
    using assms unfolding ev adds_def by auto
  moreover have "grows a a''"
    using g by (rule grows_trans)
  ultimately show ?thesis
    using assms unfolding adds_def by blast
qed

lemma adds_await:
  "(\<And>i. ev \<noteq> claim_request a i) \<Longrightarrow> adds C D S a (await W ev a)"
  by (auto simp: adds_def)

lemma adds_add_skipped: "i \<in> S \<Longrightarrow> adds C D S a (add_skipped i a)"
  by (auto simp: adds_def)

lemma adds_add_completed: "i \<in> D \<Longrightarrow> adds C D S a (add_completed i a)"
  by (auto simp: adds_def)

lemma adds_add_claimed: "i \<in> C \<Longrightarrow> adds C D S a (add_claimed i a)"
  by (auto simp: adds_def)

lemma adds_discoverBounties: "adds C D S a (snd (discoverBounties W a))"
  by (simp add: adds_await claim_request_def)

lemma adds_chat: "adds C D S a (snd (chat W ms a))"
  by (simp add: adds_await claim_request_def)

lemma adds_evaluateBounty: "adds C D S a (snd (evaluateBounty W b a))"
  by (simp add: adds_await claim_request_def)

lemma adds_generateWorkPlan: "adds C D S a (snd (generateWorkPlan W b a))"
  unfolding generateWorkPlan_def by (rule adds_chat)


lemma adds_claimBounty: "i \<in> C \<Longrightarrow> adds C D S a (snd (claimBounty W i a))"
proof (cases "dryRun (config a)")
  case True
  assume "i \<in> C"
  with True show ?thesis
    by (simp add: claimBounty_def adds_add_claimed)
next
  case False
  assume i: "i \<in> C"
  define a' where "a' = await W (claim_request a i) a"
  have 1: "adds C D S a a'"
    using i by (auto simp: adds_def a'_def)
  have "adds C D S a' (add_claimed i a')"
    using i by (rule adds_add_claimed)
  with 1 have 2: "adds C D S a (add_claimed i a')"
    by (rule adds_trans)
  obtain r a'' where c: "client_claimBounty W i (walletAddress (config a)) a = (r, a'')"
    by force
  with snd_client_claimBounty [of W i "walletAddress (config a)" a]
  have "a'' = a'"
    by (simp add: a'_def claim_request_def)
  with c False 1 2 show ?thesis
    by (auto simp: claimBounty_def split: sum.splits)
qed

lemma adds_submitWork: "i \<in> D \<Longrightarrow> adds C D S a (snd (submitWork W i subm pf a))"
proof (cases "dryRun (config a)")
  case True
  assume "i \<in> D"
  with True show ?thesis
    by (simp add: submitWork_def adds_add_completed)
next
  case False
  assume i: "i \<in> D"
  define a' where "a' = await W (HttpPost (client_apiBase a @ ''/bounties/'' @ i @ ''/submit'')
      (SubmitBody (walletAddress (config a)) subm pf)) a"
  have 1: "adds C D S a a'"
    unfolding a'_def by (rule adds_await) (simp add: claim_request_def)
  have "adds C D S a' (add_completed i a')"
    using i by (rule adds_add_completed)
  with 1 have 2: "adds C D S a (add_completed i a')"
    by (rule adds_trans)
  obtain r a'' where c: "client_submitBounty W i (walletAddress (config a)) subm pf a = (r, a'')"
    by force
  with snd_client_submitBounty [of W i "walletAddress (config a)" subm pf a]
  have "a'' = a'"
    by (simp add: a'_def)
  with c False 1 2 show ?thesis
    by (auto simp: submitWork_def split: sum.splits)
qed


lemma evaluateBounty_obtain:
  obtains ev where "evaluateBounty W b a = (Inr ev, snd (evaluateBounty W b a))"
  using evaluateBounty_Inr [of W b a] by (metis prod.collapse)

lemma unsuitable_ids_Cons:
  "unsuitable_ids ((b, ev) # evs) =
     (if \<not> suitable ev then {id' b} else {}) \<union> unsuitable_ids evs"
  by (auto simp: unsuitable_ids_def)

lemma evaluate_loop_effect:
  "\<exists>evs. fst (evaluate_loop W bs a) = Inr evs \<and> map fst evs = bs
         \<and> adds {} {} (unsuitable_ids evs) a (snd (evaluate_loop W bs a))
         \<and> unsuitable_ids evs \<subseteq> skippedBounties (state (snd (evaluate_loop W bs a)))"
proof (induction bs arbitrary: a)
  case Nil
  show ?case by (simp add: unsuitable_ids_def)
next
  case (Cons b bs)
  obtain ev where e: "evaluateBounty W b a = (Inr ev, snd (evaluateBounty W b a))"
    by (rule evaluateBounty_obtain)
  define a1 where "a1 = snd (evaluateBounty W b a)"
  define a2 where "a2 = (if \<not> suitable ev then add_skipped (id' b) a1 else a1)"
  obtain evs where l: "fst (evaluate_loop W bs a2) = Inr evs" and m: "map fst evs = bs"
    and ad: "adds {} {} (unsuitable_ids evs) a2 (snd (evaluate_loop W bs a2))"
    and sk: "unsuitable_ids evs \<subseteq> skippedBounties (state (snd (evaluate_loop W bs a2)))"
    using Cons.IH [of a2] by blast
  define a3 where "a3 = snd (evaluate_loop W bs a2)"
  let ?S = "unsuitable_ids ((b, ev) # evs)"
  have l': "evaluate_loop W bs a2 = (Inr evs, a3)"
    using l by (simp add: a3_def prod_eq_iff)
  have e0: "evaluateBounty W b a = (Inr ev, a1)"
    using e unfolding a1_def .
  have "evaluate_loop W (b # bs) a =
      (case evaluate_loop W bs a2 of
         (Inl e, a3) \<Rightarrow> (Inl e, a3)
       | (Inr evaluations, a3) \<Rightarrow> (Inr ((b, ev) # evaluations), a3))"
    by (simp only: evaluate_loop.simps e0 prod.case sum.case Let_def a2_def)
  then have r: "evaluate_loop W (b # bs) a = (Inr ((b, ev) # evs), a3)"
    by (simp only: l' prod.case sum.case)
  have "adds {} {} ?S a a1"
    unfolding a1_def by (rule adds_evaluateBounty)
  moreover have "adds {} {} ?S a1 a2"
    by (simp add: a2_def adds_add_skipped unsuitable_ids_Cons)
  moreover have "adds {} {} ?S a2 a3"
    using ad unfolding a3_def by (rule adds_mono) (auto simp: unsuitable_ids_Cons)
  ultimately have 1: "adds {} {} ?S a a3"
    by (blast intro: adds_trans)
  have "grows a2 a3"
    using ad by (simp add: adds_def a3_def)
  then have "skippedBounties (state a2) \<subseteq> skippedBounties (state a3)"
    by (simp add: grows_def)
  then have 2: "?S \<subseteq> skippedBounties (state a3)"
    using sk by (auto simp: unsuitable_ids_Cons a2_def a3_def)
  show ?case
    using r m 1 2 by simp
qed

lemma affordable_ids_grows:
  "grows a a' \<Longrightarrow> affordable_ids W a' es = affordable_ids W a es"
  by (simp add: affordable_ids_def grows_def)

lemma affordable_ids_Cons:
  "affordable_ids W a ((b, ev) # es) =
     (if js_gt (reward_usdc W b) (maxReward (config a)) then {} else {id' b})
       \<union> affordable_ids W a es"
  by (auto simp: affordable_ids_def)

lemma claim_loop_effect:
  "adds (affordable_ids W a es) (affordable_ids W a es) {} a (snd (claim_loop W es a))"
proof (induction es arbitrary: a)
  case Nil
  show ?case by simp
next
  case (Cons e es)
  obtain b ev where [simp]: "e = (b, ev)"
    by (cases e)
  let ?C = "affordable_ids W a ((b, ev) # es)"
  have rest: "adds ?C ?C {} a' (snd (claim_loop W es a'))" if "grows a a'" for a'
  proof -
    have "adds (affordable_ids W a es) (affordable_ids W a es) {} a' (snd (claim_loop W es a'))"
      using Cons.IH [of a'] affordable_ids_grows [OF that] by simp
    then show ?thesis
      by (rule adds_mono) (auto simp: affordable_ids_Cons)
  qed
  show ?case
  proof (cases "js_gt (reward_usdc W b) (maxReward (config a))")
    case True
    then show ?thesis
      using rest [of a] by simp
  next
    case False
    then have i: "id' b \<in> ?C"
      by (simp add: affordable_ids_Cons)
    obtain r1 a1 where c: "claimBounty W (id' b) a = (r1, a1)"
      by force
    then have s1: "adds ?C ?C {} a a1"
      using adds_claimBounty [OF i, of ?C "{}" a W] by simp
    obtain r2 a2 where w: "generateWorkPlan W b a1 = (r2, a2)"
      by force
    then have "adds ?C ?C {} a1 a2"
      using adds_generateWorkPlan [of ?C ?C "{}" a1 W b] by simp
    with s1 have s2: "adds ?C ?C {} a a2"
      by (rule adds_trans)
    obtain r3 a3 where s: "submitWork W (id' b) (projr r2) (proof_of a2 b) a2 = (r3, a3)"
      by force
    then have "adds ?C ?C {} a2 a3"
      using adds_submitWork [OF i, of ?C "{}" a2 W "projr r2" "proof_of a2 b"] by simp
    with s2 have s3: "adds ?C ?C {} a a3"
      by (rule adds_trans)
    have "adds ?C ?C {} a (snd (claim_loop W es a1))"
      using s1 rest [of a1] adds_grows [OF s1] by (blast intro: adds_trans)
    moreover have "adds ?C ?C {} a (snd (claim_loop W es a3))"
      using s3 rest [of a3] adds_grows [OF s3] by (blast intro: adds_trans)
    ultimately show ?thesis
      using False c w s s1 s2 s3 by (auto split: sum.splits)
  qed
qed


subsection \<open>The phases of a cycle\<close>

lemma listOpenBounties_cases:
  "fst (listOpenBounties W a) =
     (case fst (request W (bounties_reply W) (HttpGet (client_apiBase a @ ''/bounties'')) a) of
        Inl e \<Rightarrow> Inl e
      | Inr bs \<Rightarrow> Inr (filter (\<lambda>b. status b = ''open'') (filter (\<lambda>b. truthy_str (title b)) bs)))"
  by (simp add: listOpenBounties_def listBounties_def split: prod.splits sum.splits)

lemma discoverBounties_cases:
  "fst (discoverBounties W a) =
     (case fst (listOpenBounties W a) of
        Inl e \<Rightarrow> Inl e
      | Inr bs \<Rightarrow> Inr (filter (\<lambda>b. id' b \<notin> tracked a) bs))"
proof -
  obtain r a' where l: "listOpenBounties W a = (r, a')"
    by force
  with snd_listOpenBounties [of W a] show ?thesis
    by (auto simp: discoverBounties_def tracked_def split: sum.splits)
qed

lemma evaluate_phase_cases:
  "evaluate_phase W a =
     (case fst (discoverBounties W a) of
        Inl e \<Rightarrow> (Inl e, snd (discoverBounties W a))
      | Inr bs \<Rightarrow> evaluate_loop W (take 5 bs) (snd (discoverBounties W a)))"
  by (cases "discoverBounties W a") (simp add: evaluate_phase_def split: sum.splits)

lemma runCycle_phases:
  "runCycle W a =
     (case evaluate_phase W a of
        (Inl e, a2) \<Rightarrow> (Inl e, a2)
      | (Inr evs, a2) \<Rightarrow> claim_loop W (filter is_suitable evs) a2)"
proof (cases "discoverBounties W a")
  case (Pair r a1)
  show ?thesis
  proof (cases r)
    case (Inl e)
    with Pair show ?thesis
      by (simp add: runCycle_def evaluate_phase_def)
  next
    case (Inr bs)
    show ?thesis
    proof (cases "bs = []")
      case True
      with Pair Inr show ?thesis
        by (simp add: runCycle_def evaluate_phase_def)
    next
      case False
      with Pair Inr show ?thesis
        by (simp add: runCycle_def evaluate_phase_def)
    qed
  qed
qed

lemma cycle_evaluations_untracked:
  assumes "e \<in> set (cycle_evaluations W a)"
  shows "id' (fst e) \<notin> tracked a"
proof (cases "fst (discoverBounties W a)")
  case (Inl err)
  with assms show ?thesis
    by (simp add: cycle_evaluations_def evaluate_phase_cases)
next
  case (Inr bs)
  obtain evs where l: "fst (evaluate_loop W (take 5 bs) (snd (discoverBounties W a))) = Inr evs"
    and m: "map fst evs = take 5 bs"
    using evaluate_loop_effect [of W "take 5 bs" "snd (discoverBounties W a)"] by blast
  have "cycle_evaluations W a = evs"
    using Inr l by (simp add: cycle_evaluations_def evaluate_phase_cases)
  with assms have "fst e \<in> set (map fst evs)"
    by force
  then have "fst e \<in> set bs"
    unfolding m by (rule in_set_takeD)
  moreover have "\<forall>b\<in>set bs. id' b \<notin> tracked a"
    using Inr by (auto simp: discoverBounties_cases split: sum.splits)
  ultimately show ?thesis
    by blast
qed

lemma evaluate_phase_effect:
  "adds {} {} (unsuitable_ids (cycle_evaluations W a)) a (snd (evaluate_phase W a))
   \<and> unsuitable_ids (cycle_evaluations W a) \<subseteq> skippedBounties (state (snd (evaluate_phase W a)))"
proof (cases "fst (discoverBounties W a)")
  case (Inl err)
  then show ?thesis
    using adds_discoverBounties [of "{}" "{}" "{}" a W]
    by (simp add: cycle_evaluations_def evaluate_phase_cases unsuitable_ids_def)
next
  case (Inr bs)
  define a1 where "a1 = snd (discoverBounties W a)"
  obtain evs where l: "fst (evaluate_loop W (take 5 bs) a1) = Inr evs"
    and ad: "adds {} {} (unsuitable_ids evs) a1 (snd (evaluate_loop W (take 5 bs) a1))"
    and sk: "unsuitable_ids evs \<subseteq> skippedBounties (state (snd (evaluate_loop W (take 5 bs) a1)))"
    using evaluate_loop_effect [of W "take 5 bs" a1] by blast
  have ce: "cycle_evaluations W a = evs"
    using Inr l by (simp add: cycle_evaluations_def evaluate_phase_cases a1_def)
  have ep: "evaluate_phase W a = evaluate_loop W (take 5 bs) a1"
    using Inr by (simp add: evaluate_phase_cases a1_def)
  have "adds {} {} (unsuitable_ids evs) a a1"
    unfolding a1_def by (rule adds_discoverBounties)
  then have "adds {} {} (unsuitable_ids evs) a (snd (evaluate_loop W (take 5 bs) a1))"
    using ad by (rule adds_trans)
  then show ?thesis
    using sk by (simp add: ce ep)
qed

lemma runCycle_after_phase:
  "snd (runCycle W a) =
     (case fst (evaluate_phase W a) of
        Inl e \<Rightarrow> snd (evaluate_phase W a)
      | Inr evs \<Rightarrow>
          snd (claim_loop W (filter is_suitable (cycle_evaluations W a)) (snd (evaluate_phase W a))))"
  by (cases "evaluate_phase W a")
     (simp add: runCycle_phases cycle_evaluations_def split: sum.splits)

lemma runCycle_effect:
  "adds (affordable_ids W a (filter is_suitable (cycle_evaluations W a)))
        (affordable_ids W a (filter is_suitable (cycle_evaluations W a)))
        (unsuitable_ids (cycle_evaluations W a)) a (snd (runCycle W a))"
proof -
  let ?C = "affordable_ids W a (filter is_suitable (cycle_evaluations W a))"
  let ?S = "unsuitable_ids (cycle_evaluations W a)"
  define a2 where "a2 = snd (evaluate_phase W a)"
  have "adds {} {} ?S a a2"
    using evaluate_phase_effect [of W a] by (simp add: a2_def)
  then have 1: "adds ?C ?C ?S a a2"
    by (rule adds_mono) auto
  then have g: "grows a a2"
    by (rule adds_grows)
  have "adds ?C ?C {} a2 (snd (claim_loop W (filter is_suitable (cycle_evaluations W a)) a2))"
    using claim_loop_effect [of W a2 "filter is_suitable (cycle_evaluations W a)"]
    by (simp add: affordable_ids_grows [OF g])
  then have "adds ?C ?C ?S a2 (snd (claim_loop W (filter is_suitable (cycle_evaluations W a)) a2))"
    by (rule adds_mono) auto
  with 1 have "adds ?C ?C ?S a (snd (claim_loop W (filter is_suitable (cycle_evaluations W a)) a2))"
    by (rule adds_trans)
  with 1 show ?thesis
    by (simp add: runCycle_after_phase a2_def split: sum.splits)
qed


subsection \<open>The running flag when nobody calls stop\<close>

lemma await_running:
  "\<forall>h. \<not> stop_called W h \<Longrightarrow> isRunning (state (await W ev a)) = isRunning (state a)"
  by (simp add: await_def Let_def)

lemma add_running [simp]:
  "isRunning (state (add_claimed i a)) = isRunning (state a)"
  "isRunning (state (add_completed i a)) = isRunning (state a)"
  "isRunning (state (add_skipped i a)) = isRunning (state a)"
  by (simp_all add: add_claimed_def add_completed_def add_skipped_def)

lemma claimBounty_running:
  assumes "\<forall>h. \<not> stop_called W h"
  shows "isRunning (state (snd (claimBounty W i a))) = isRunning (state a)"
proof -
  obtain r a' where c: "client_claimBounty W i (walletAddress (config a)) a = (r, a')"
    by force
  with snd_client_claimBounty [of W i "walletAddress (config a)" a]
  have "isRunning (state a') = isRunning (state a)"
    using await_running [OF assms] by auto
  with c show ?thesis
    by (auto simp: claimBounty_def split: sum.splits)
qed

lemma submitWork_running:
  assumes "\<forall>h. \<not> stop_called W h"
  shows "isRunning (state (snd (submitWork W i subm pf a))) = isRunning (state a)"
proof -
  obtain r a' where c: "client_submitBounty W i (walletAddress (config a)) subm pf a = (r, a')"
    by force
  with snd_client_submitBounty [of W i "walletAddress (config a)" subm pf a]
  have "isRunning (state a') = isRunning (state a)"
    using await_running [OF assms] by auto
  with c show ?thesis
    by (auto simp: submitWork_def split: sum.splits)
qed

lemma evaluate_loop_running:
  assumes "\<forall>h. \<not> stop_called W h"
  shows "isRunning (state (snd (evaluate_loop W bs a))) = isRunning (state a)"
proof (induction bs arbitrary: a)
  case Nil
  show ?case by simp
next
  case (Cons b bs)
  obtain ev where e: "evaluateBounty W b a = (Inr ev, snd (evaluateBounty W b a))"
    by (rule evaluateBounty_obtain)
  define a1 where "a1 = snd (evaluateBounty W b a)"
  define a2 where "a2 = (if \<not> suitable ev then add_skipped (id' b) a1 else a1)"
  have e0: "evaluateBounty W b a = (Inr ev, a1)"
    using e unfolding a1_def .
  have "isRunning (state a1) = isRunning (state a)"
    by (simp add: a1_def await_running [OF assms])
  then have 2: "isRunning (state a2) = isRunning (state a)"
    by (simp add: a2_def)
  have "snd (evaluate_loop W (b # bs) a) = snd (evaluate_loop W bs a2)"
    by (simp only: evaluate_loop.simps e0 prod.case sum.case Let_def a2_def)
       (simp split: prod.splits sum.splits)
  then show ?case
    using Cons.IH [of a2] 2 by simp
qed

lemma claim_loop_running:
  assumes "\<forall>h. \<not> stop_called W h"
  shows "isRunning (state (snd (claim_loop W es a))) = isRunning (state a)"
proof (induction es arbitrary: a)
  case Nil
  show ?case by simp
next
  case (Cons e es)
  obtain b ev where [simp]: "e = (b, ev)"
    by (cases e)
  obtain r1 a1 where c: "claimBounty W (id' b) a = (r1, a1)"
    by force
  then have 1: "isRunning (state a1) = isRunning (state a)"
    using claimBounty_running [OF assms, of "id' b" a] by simp
  obtain r2 a2 where w: "generateWorkPlan W b a1 = (r2, a2)"
    by force
  then have 2: "isRunning (state a2) = isRunning (state a)"
    using snd_chat [of W "workplan_messages b" a1] 1
    by (simp add: generateWorkPlan_def await_running [OF assms])
  obtain r3 a3 where s: "submitWork W (id' b) (projr r2) (proof_of a2 b) a2 = (r3, a3)"
    by force
  then have 3: "isRunning (state a3) = isRunning (state a)"
    using submitWork_running [OF assms, of "id' b" "projr r2" "proof_of a2 b" a2] 2 by simp
  show ?case
    using c w s 1 2 3 Cons.IH [of a] Cons.IH [of a1] Cons.IH [of a3]
    by (auto split: sum.splits)
qed

lemma runCycle_running:
  assumes "\<forall>h. \<not> stop_called W h"
  shows "isRunning (state (snd (runCycle W a))) = isRunning (state a)"
proof -
  have 1: "isRunning (state (snd (discoverBounties W a))) = isRunning (state a)"
    by (simp add: await_running [OF assms])
  then have "isRunning (state (snd (evaluate_phase W a))) = isRunning (state a)"
    by (simp add: evaluate_phase_cases evaluate_loop_running [OF assms] split: sum.splits)
  then show ?thesis
    by (simp add: runCycle_after_phase claim_loop_running [OF assms] split: sum.splits)
qed

lemma loop_turn_eq:
  "loop_turn W a =
     await W (Sleep (pollInterval (config a))) (snd (runCycle W a))"
proof -
  have "config (snd (runCycle W a)) = config a"
    using grows_runCycle [of a W] by (simp add: grows_def)
  then show ?thesis
    by (cases "runCycle W a") (simp add: loop_turn_def split: sum.splits)
qed

lemma loop_turn_running:
  assumes "\<forall>h. \<not> stop_called W h"
  shows "isRunning (state (loop_turn W a)) = isRunning (state a)"
  by (simp add: loop_turn_eq await_running [OF assms] runCycle_running [OF assms])

lemma while_running_forever:
  assumes "\<forall>h. \<not> stop_called W h" and "isRunning (state a)"
  shows "while_running n W a = (StillRunning, (loop_turn W ^^ n) a)"
  using assms(2)
proof (induction n arbitrary: a)
  case 0
  then show ?case by simp
next
  case (Suc n)
  have "isRunning (state (loop_turn W a))"
    using Suc.prems by (simp add: loop_turn_running [OF assms(1)])
  then have "while_running n W (loop_turn W a) = (StillRunning, (loop_turn W ^^ n) (loop_turn W a))"
    by (rule Suc.IH)
  then show ?case
    using Suc.prems by (simp add: funpow_swap1)
qed


subsection \<open>One step of the claim loop\<close>

lemma claim_loop_over_ceiling:
  "js_gt (reward_usdc W b) (maxReward (config a)) \<Longrightarrow>
   claim_loop W ((b, ev) # rest) a = claim_loop W rest a"
  by simp




subsection \<open>The match of the pattern\<close>

lemma star_then_close_None: "star_then_close xs = None \<longleftrightarrow> CHR ''}'' \<notin> set xs"
  by (induction xs) (auto split: option.splits)

lemma star_then_close_last:
  "CHR ''}'' \<notin> set post \<Longrightarrow>
   star_then_close (mid @ CHR ''}'' # post) = Some (mid @ [CHR ''}''])"
proof (induction mid)
  case Nil
  then have "star_then_close post = None"
    by (simp add: star_then_close_None)
  then show ?case by simp
next
  case (Cons c mid)
  then show ?case by simp
qed

lemma match_braces_first:
  "CHR ''{'' \<notin> set pre \<Longrightarrow>
   match_braces (pre @ CHR ''{'' # rest) =
     (case star_then_close rest of
        Some m \<Rightarrow> Some (CHR ''{'' # m)
      | None \<Rightarrow> match_braces rest)"
  by (induction pre) auto

lemma match_braces_None:
  "match_braces r = None \<longleftrightarrow> (\<forall>pre rest. r = pre @ CHR ''{'' # rest \<longrightarrow> CHR ''}'' \<notin> set rest)"
proof (induction r)
  case Nil
  show ?case by simp
next
  case (Cons c cs)
  show ?case
  proof (cases "c = CHR ''{''")
    case False
    then show ?thesis
      using Cons.IH by (auto simp: Cons_eq_append_conv)
  next
    case True
    show ?thesis
    proof (cases "star_then_close cs")
      case (Some m)
      then have "CHR ''}'' \<in> set cs"
        using star_then_close_None [of cs] by auto
      then have "\<not> (\<forall>pre rest. c # cs = pre @ CHR ''{'' # rest \<longrightarrow> CHR ''}'' \<notin> set rest)"
        using True by (metis append_Nil)
      with True Some show ?thesis
        by simp
    next
      case None
      then have n: "CHR ''}'' \<notin> set cs"
        by (simp add: star_then_close_None)
      then have "match_braces cs = None"
        using Cons.IH by auto
      moreover have "CHR ''}'' \<notin> set rest" if "c # cs = pre @ CHR ''{'' # rest" for pre rest
        using that n by (cases pre) auto
      ultimately show ?thesis
        using True None by auto
    qed
  qed
qed

lemma match_braces_None_iff:
  "match_braces r = None \<longleftrightarrow> \<not> (\<exists>pre mid post. r = pre @ CHR ''{'' # mid @ CHR ''}'' # post)"
proof -
  have "(\<exists>pre rest. r = pre @ CHR ''{'' # rest \<and> CHR ''}'' \<in> set rest)
      \<longleftrightarrow> (\<exists>pre mid post. r = pre @ CHR ''{'' # mid @ CHR ''}'' # post)"
    by (metis in_set_conv_decomp)
  then show ?thesis
    unfolding match_braces_None by blast
qed

lemma match_braces_span:
  "CHR ''{'' \<notin> set pre \<Longrightarrow> CHR ''}'' \<notin> set post \<Longrightarrow>
   match_braces (pre @ CHR ''{'' # mid @ CHR ''}'' # post) = Some (CHR ''{'' # mid @ [CHR ''}''])"
  by (simp add: match_braces_first star_then_close_last)


subsection \<open>A cycle that finds every listed bounty tracked\<close>

lemma runCycle_all_tracked:
  assumes "fst (listOpenBounties W a) = Inr L" and "\<forall>b\<in>set L. id' b \<in> tracked a"
  shows "runCycle W a = (Inr (), await W (HttpGet (client_apiBase a @ ''/bounties'')) a)"
proof -
  have "filter (\<lambda>b. id' b \<notin> tracked a) L = []"
    using assms(2) by (simp add: filter_empty_conv)
  then have "fst (discoverBounties W a) = Inr []"
    by (simp add: discoverBounties_cases assms(1))
  then have "discoverBounties W a = (Inr [], await W (HttpGet (client_apiBase a @ ''/bounties'')) a)"
    using snd_discoverBounties [of W a] by (simp add: prod_eq_iff)
  then show ?thesis
    by (simp add: runCycle_def)
qed


subsection \<open>Later cycles and bounties with their own id\<close>




lemma affordable_idsE:
  assumes "i \<in> affordable_ids W a es"
  obtains e where "e \<in> set es" and "id' (fst e) = i"
    and "\<not> js_gt (reward_usdc W (fst e)) (maxReward (config a))"
  using assms unfolding affordable_ids_def by blast

lemma unsuitable_idsE:
  assumes "i \<in> unsuitable_ids evs"
  obtains e where "e \<in> set evs" and "id' (fst e) = i" and "\<not> suitable (snd e)"
  using assms unfolding unsuitable_ids_def by blast


lemma runCycle_over_ceiling_untracked:
  assumes "(b, ev) \<in> set (cycle_evaluations W a)" and "suitable ev"
    and "js_gt (reward_usdc W b) (maxReward (config a))"
    and "\<forall>e\<in>set (cycle_evaluations W a). id' (fst e) = id' b \<longrightarrow> e = (b, ev)"
  shows "adds (- {id' b}) (- {id' b}) (- {id' b}) a (snd (runCycle W a))"
proof -
  have same: "e' = (b, ev)" if "e' \<in> set (cycle_evaluations W a)" "id' (fst e') = id' b" for e'
    using assms(4) that by blast
  have "id' b \<notin> affordable_ids W a (filter is_suitable (cycle_evaluations W a))"
  proof
    assume "id' b \<in> affordable_ids W a (filter is_suitable (cycle_evaluations W a))"
    then obtain e' where e': "e' \<in> set (filter is_suitable (cycle_evaluations W a))"
      and i: "id' (fst e') = id' b"
      and r: "\<not> js_gt (reward_usdc W (fst e')) (maxReward (config a))"
      by (rule affordable_idsE)
    then have "e' = (b, ev)"
      using same [of e'] by simp
    with r assms(3) show False
      by simp
  qed
  then have 1: "affordable_ids W a (filter is_suitable (cycle_evaluations W a)) \<subseteq> - {id' b}"
    by blast
  have "id' b \<notin> unsuitable_ids (cycle_evaluations W a)"
  proof
    assume "id' b \<in> unsuitable_ids (cycle_evaluations W a)"
    then obtain e' where e': "e' \<in> set (cycle_evaluations W a)"
      and i: "id' (fst e') = id' b" and u: "\<not> suitable (snd e')"
      by (rule unsuitable_idsE)
    then have "e' = (b, ev)"
      using same [of e'] by simp
    with u assms(2) show False
      by simp
  qed
  then have 2: "unsuitable_ids (cycle_evaluations W a) \<subseteq> - {id' b}"
    by blast
  from runCycle_effect [of W a] 1 1 2 show ?thesis
    by (rule adds_mono)
qed


subsection \<open>The results of single calls\<close>

lemma chat_cases:
  "fst (chat W ms a) =
     (case chat_reply W (trace a @ [HttpPost OPENROUTER_API
              (ChatBody (openRouterApiKey (config a)) (model (config a)) ms)]) of
        Rejected m \<Rightarrow> Inl (Error m)
      | Responded st bt js \<Rightarrow>
          if \<not> res_ok st then Inl (Error (''OpenRouter API '' @ show_nat st @ '': '' @ bt))
          else (case js of
                  Inl e \<Rightarrow> Inl e
                | Inr data \<Rightarrow> Inr (case choices data of [] \<Rightarrow> [] | c # _ \<Rightarrow> c)))"
  by (simp add: chat_def Let_def)

lemma evaluateBounty_cases:
  "fst (evaluateBounty W b a) =
     (case fst (chat W (evaluation_messages a b) a) of
        Inl err \<Rightarrow>
          Inr \<lparr> suitable = False, confidence = Num 0,
                reasoning = ''Evaluation error: '' @ message err, estimatedEffort = ''high'' \<rparr>
      | Inr response \<Rightarrow>
          (case match_braces response of
             None \<Rightarrow>
               Inr \<lparr> suitable = False, confidence = Num 0,
                     reasoning = ''Failed to parse AI evaluation'', estimatedEffort = ''high'' \<rparr>
           | Some j \<Rightarrow>
               (case JSON_parse W j of
                  Inl err \<Rightarrow>
                    Inr \<lparr> suitable = False, confidence = Num 0,
                          reasoning = ''Evaluation error: '' @ message err,
                          estimatedEffort = ''high'' \<rparr>
                | Inr ev \<Rightarrow> Inr ev)))"
  by (cases "chat W (evaluation_messages a b) a")
     (simp add: evaluateBounty_def evaluateBounty_try_def split: sum.splits option.splits)

lemma claimBounty_dry:
  "dryRun (config a) \<Longrightarrow> claimBounty W i a = (Inr True, add_claimed i a)"
  by (simp add: claimBounty_def)

lemma submitWork_dry:
  "dryRun (config a) \<Longrightarrow>
   submitWork W i subm pf a =
     (Inr \<lparr> bountyId = i, submission = subm, proof_url = pf, status' = ''dry_run'' \<rparr>,
      add_completed i a)"
  by (simp add: submitWork_def)

lemma claimBounty_live:
  "\<not> dryRun (config a) \<Longrightarrow>
   claimBounty W i a =
     (case fst (client_claimBounty W i (walletAddress (config a)) a) of
        Inr result \<Rightarrow> (Inr True, add_claimed i (await W (claim_request a i) a))
      | Inl err \<Rightarrow> (Inr False, await W (claim_request a i) a))"
proof -
  obtain r a' where c: "client_claimBounty W i (walletAddress (config a)) a = (r, a')"
    by force
  with snd_client_claimBounty [of W i "walletAddress (config a)" a]
  show "\<not> dryRun (config a) \<Longrightarrow> ?thesis"
    by (simp add: claimBounty_def claim_request_def split: sum.splits)
qed

lemma submitWork_live:
  "\<not> dryRun (config a) \<Longrightarrow>
   submitWork W i subm pf a =
     (let a' = await W (HttpPost (client_apiBase a @ ''/bounties/'' @ i @ ''/submit'')
                 (SubmitBody (walletAddress (config a)) subm pf)) a
      in case fst (client_submitBounty W i (walletAddress (config a)) subm pf a) of
           Inr result \<Rightarrow>
             (Inr \<lparr> bountyId = i, submission = subm, proof_url = pf, status' = result \<rparr>,
              add_completed i a')
         | Inl err \<Rightarrow>
             (Inr \<lparr> bountyId = i, submission = subm, proof_url = pf,
                    status' = ''error: '' @ message err \<rparr>, a'))"
proof -
  obtain r a' where c: "client_submitBounty W i (walletAddress (config a)) subm pf a = (r, a')"
    by force
  with snd_client_submitBounty [of W i "walletAddress (config a)" subm pf a]
  show "\<not> dryRun (config a) \<Longrightarrow> ?thesis"
    by (simp add: submitWork_def split: sum.splits)
qed

subsection \<open>What a cycle evaluates and what it may track\<close>

lemma cycle_evaluations_batch:
  assumes "fst (listOpenBounties W a) = Inr L"
  shows "map fst (cycle_evaluations W a) = take 5 (filter (\<lambda>b. id' b \<notin> tracked a) L)"
proof -
  let ?bs = "filter (\<lambda>b. id' b \<notin> tracked a) L"
  have d: "fst (discoverBounties W a) = Inr ?bs"
    by (simp add: discoverBounties_cases assms)
  obtain evs where l: "fst (evaluate_loop W (take 5 ?bs) (snd (discoverBounties W a))) = Inr evs"
    and m: "map fst evs = take 5 ?bs"
    using evaluate_loop_effect [of W "take 5 ?bs" "snd (discoverBounties W a)"] by blast
  have "cycle_evaluations W a = evs"
    using d l by (simp add: cycle_evaluations_def evaluate_phase_cases)
  with m show ?thesis
    by simp
qed

lemma runCycle_tracks_evaluated:
  "claimedBounties (state (snd (runCycle W a)))
     \<subseteq> claimedBounties (state a) \<union> id' ` set (map fst (cycle_evaluations W a))
   \<and> completedBounties (state (snd (runCycle W a)))
     \<subseteq> completedBounties (state a) \<union> id' ` set (map fst (cycle_evaluations W a))
   \<and> skippedBounties (state (snd (runCycle W a)))
     \<subseteq> skippedBounties (state a) \<union> id' ` set (map fst (cycle_evaluations W a))"
proof -
  let ?ids = "id' ` set (map fst (cycle_evaluations W a))"
  have "affordable_ids W a (filter is_suitable (cycle_evaluations W a)) \<subseteq> ?ids"
    by (force simp: affordable_ids_def)
  moreover have "unsuitable_ids (cycle_evaluations W a) \<subseteq> ?ids"
    by (force simp: unsuitable_ids_def)
  ultimately have "adds ?ids ?ids ?ids a (snd (runCycle W a))"
    using runCycle_effect [of W a] adds_mono by blast
  then show ?thesis
    by (simp add: adds_def)
qed

subsection \<open>A claim loop that returns has taken the claim step for every entry within the ceiling\<close>








subsection \<open>Unfolding on sample data\<close>

lemmas run_defs =
  runCycle_def cycle_evaluations_def evaluate_phase_def discoverBounties_def is_suitable_def
  listOpenBounties_def listBounties_def request_def evaluateBounty_def evaluateBounty_try_def
  chat_def claimBounty_def submitWork_def generateWorkPlan_def reward_usdc_def
  res_ok_def truthy_str_def Let_def await_def add_skipped_def add_claimed_def add_completed_def
  new_BountyAgent_def or_num_def or_str_def

lemmas sample_defs =
  sample_world_def sample_agent_def says_def NO_def YES_def task_def verdict_def

section \<open>The claims\<close>

text \<open>
  C1, as the code has it. Two cycles in a row on the same list \<open>L\<close> of open bounties.
  Each cycle evaluates the first five bounties of \<open>L\<close> whose id is in none of the three sets
  when it starts, and the second cycle adds to the sets only ids of bounties it evaluates.
  So if every bounty of \<open>L\<close> is in one of the three sets after the first cycle, the second
  cycle returns after its discovery request, and the three sets are as the first cycle left
  them.
\<close>

theorem second_cycle_changes_nothing:
  assumes "fst (listOpenBounties W a) = Inr L"
    and "fst (listOpenBounties W (snd (runCycle W a))) = Inr L"
  shows
  "(let a1 = snd (runCycle W a); a2 = snd (runCycle W a1)
    in map fst (cycle_evaluations W a) = take 5 (filter (\<lambda>b. id' b \<notin> tracked a) L)
       \<and> map fst (cycle_evaluations W a1) = take 5 (filter (\<lambda>b. id' b \<notin> tracked a1) L)
       \<and> claimedBounties (state a2)
           \<subseteq> claimedBounties (state a1)
               \<union> id' ` set (take 5 (filter (\<lambda>b. id' b \<notin> tracked a1) L))
       \<and> completedBounties (state a2)
           \<subseteq> completedBounties (state a1)
               \<union> id' ` set (take 5 (filter (\<lambda>b. id' b \<notin> tracked a1) L))
       \<and> skippedBounties (state a2)
           \<subseteq> skippedBounties (state a1)
               \<union> id' ` set (take 5 (filter (\<lambda>b. id' b \<notin> tracked a1) L))
       \<and> ((\<forall>b\<in>set L. id' b \<in> tracked a1) \<longrightarrow>
            fst (runCycle W a1) = Inr ()
            \<and> claimedBounties (state a2) = claimedBounties (state a1)
            \<and> completedBounties (state a2) = completedBounties (state a1)
            \<and> skippedBounties (state a2) = skippedBounties (state a1)
            \<and> events_since a1 a2 = [HttpGet (client_apiBase a @ ''/bounties'')]))"
proof -
  let ?a1 = "snd (runCycle W a)"
  have 1: "map fst (cycle_evaluations W a) = take 5 (filter (\<lambda>b. id' b \<notin> tracked a) L)"
    using assms(1) by (rule cycle_evaluations_batch)
  have 2: "map fst (cycle_evaluations W ?a1) = take 5 (filter (\<lambda>b. id' b \<notin> tracked ?a1) L)"
    using assms(2) by (rule cycle_evaluations_batch)
  have 3: "claimedBounties (state (snd (runCycle W ?a1)))
        \<subseteq> claimedBounties (state ?a1)
            \<union> id' ` set (take 5 (filter (\<lambda>b. id' b \<notin> tracked ?a1) L))
      \<and> completedBounties (state (snd (runCycle W ?a1)))
        \<subseteq> completedBounties (state ?a1)
            \<union> id' ` set (take 5 (filter (\<lambda>b. id' b \<notin> tracked ?a1) L))
      \<and> skippedBounties (state (snd (runCycle W ?a1)))
        \<subseteq> skippedBounties (state ?a1)
            \<union> id' ` set (take 5 (filter (\<lambda>b. id' b \<notin> tracked ?a1) L))"
    using runCycle_tracks_evaluated [of W ?a1] unfolding 2 .
  have "config ?a1 = config a"
    using grows_runCycle [of a W] by (simp add: grows_def)
  then have "client_apiBase ?a1 = client_apiBase a"
    by (simp add: client_apiBase_def)
  then have 4: "fst (runCycle W ?a1) = Inr ()
      \<and> claimedBounties (state (snd (runCycle W ?a1))) = claimedBounties (state ?a1)
      \<and> completedBounties (state (snd (runCycle W ?a1))) = completedBounties (state ?a1)
      \<and> skippedBounties (state (snd (runCycle W ?a1))) = skippedBounties (state ?a1)
      \<and> events_since ?a1 (snd (runCycle W ?a1)) = [HttpGet (client_apiBase a @ ''/bounties'')]"
    if "\<forall>b\<in>set L. id' b \<in> tracked ?a1"
    using runCycle_all_tracked [OF assms(2) that] by simp
  show ?thesis
    unfolding Let_def using 1 2 3 4 by blast
qed

text \<open>
  C1 at a listing of one bounty that the oracle judges unsuitable: the first cycle skips
  it, the second one changes nothing.
\<close>

theorem second_cycle_changes_nothing_witness:
  "skippedBounties (state (snd (runCycle
       (sample_world (Responded 200 [] (Inr [task ''1'' ''Fix bug'' ''50000000''])) (\<lambda>h. says NO))
       (sample_agent True)))) = {''1''}
   \<and> skippedBounties (state (snd (runCycle
       (sample_world (Responded 200 [] (Inr [task ''1'' ''Fix bug'' ''50000000''])) (\<lambda>h. says NO))
       (snd (runCycle
          (sample_world (Responded 200 [] (Inr [task ''1'' ''Fix bug'' ''50000000''])) (\<lambda>h. says NO))
          (sample_agent True)))))) = {''1''}"
proof -
  let ?W = "sample_world (Responded 200 [] (Inr [task ''1'' ''Fix bug'' ''50000000''])) (\<lambda>h. says NO)"
  let ?a = "sample_agent True"
  have l: "fst (listOpenBounties ?W x) = Inr [task ''1'' ''Fix bug'' ''50000000'']" for x
    by (simp add: listOpenBounties_cases request_def sample_world_def res_ok_def task_def
          truthy_str_def)
  have s: "skippedBounties (state (snd (runCycle ?W ?a))) = {''1''}"
    by (simp add: run_defs sample_defs)
  then have t: "\<forall>b\<in>set [task ''1'' ''Fix bug'' ''50000000'']. id' b \<in> tracked (snd (runCycle ?W ?a))"
    by (simp add: tracked_def task_def)
  have "skippedBounties (state (snd (runCycle ?W (snd (runCycle ?W ?a)))))
      = skippedBounties (state (snd (runCycle ?W ?a)))"
    using second_cycle_changes_nothing [OF l l, where a = ?a] t unfolding Let_def by blast
  with s show ?thesis
    by simp
qed

text \<open>
  C1 as stated fails: a cycle evaluates five bounties at most. On a fixed listing of six
  bounties that the oracle judges unsuitable, the first cycle skips the first five and the
  second cycle skips the sixth.
\<close>

theorem second_cycle_counterexample:
  "fst (listOpenBounties six_world (sample_agent True)) = Inr six_tasks
   \<and> fst (listOpenBounties six_world (snd (runCycle six_world (sample_agent True)))) = Inr six_tasks
   \<and> skippedBounties (state (snd (runCycle six_world (sample_agent True))))
       = {''1'', ''2'', ''3'', ''4'', ''5''}
   \<and> skippedBounties (state (snd (runCycle six_world (snd (runCycle six_world (sample_agent True))))))
       = {''1'', ''2'', ''3'', ''4'', ''5'', ''6''}"
proof -
  have l: "fst (listOpenBounties six_world x) = Inr six_tasks" for x
    by (simp add: listOpenBounties_cases request_def six_world_def six_tasks_def
          sample_world_def res_ok_def task_def truthy_str_def)
  have 1: "skippedBounties (state (snd (runCycle six_world (sample_agent True))))
      = {''1'', ''2'', ''3'', ''4'', ''5''}"
    by (simp add: run_defs sample_defs six_world_def six_tasks_def) auto
  have 2: "skippedBounties (state (snd (runCycle six_world (snd (runCycle six_world (sample_agent True))))))
      = {''1'', ''2'', ''3'', ''4'', ''5'', ''6''}"
    by (simp add: run_defs sample_defs six_world_def six_tasks_def) auto
  show ?thesis
    using l 1 2 by simp
qed

text \<open>
  C2. \<open>evaluateBounty\<close> never throws. When the call of the oracle fails (the request is
  rejected, the status is not 2xx, or the body cannot be decoded) the result is the default
  evaluation \<open>suitable = false\<close>, \<open>confidence = 0\<close>, \<open>estimatedEffort = "high"\<close> with
  the reasoning \<open>"Evaluation error: "\<close> followed by the message of the error; when the
  reply contains no match of the pattern, it is the same default with the reasoning
  \<open>"Failed to parse AI evaluation"\<close>; when \<open>JSON.parse\<close> throws on the match, it is the
  default with the message of that error.
\<close>

theorem evaluateBounty_fails_closed:
  fixes W :: world and b :: Bounty and a :: BountyAgent
  shows
  "let h = trace a @ [HttpPost OPENROUTER_API
             (ChatBody (openRouterApiKey (config a)) (model (config a))
                (evaluation_messages a b))];
       failed = (\<lambda>why. Inr \<lparr> suitable = False, confidence = Num 0, reasoning = why,
                               estimatedEffort = ''high'' \<rparr>);
       r = fst (evaluateBounty W b a)
   in (\<exists>ev. r = Inr ev)
      \<and> (chat_reply W h = Rejected m \<longrightarrow> r = failed (''Evaluation error: '' @ m))
      \<and> (chat_reply W h = Responded st bt js \<and> \<not> res_ok st \<longrightarrow>
           r = failed (''Evaluation error: OpenRouter API '' @ show_nat st @ '': '' @ bt))
      \<and> (chat_reply W h = Responded st' bt' (Inl (Error m')) \<and> res_ok st' \<longrightarrow>
           r = failed (''Evaluation error: '' @ m'))
      \<and> (chat_reply W h = Responded st'' bt'' (Inr data) \<and> res_ok st''
           \<and> match_braces (case choices data of [] \<Rightarrow> [] | c # _ \<Rightarrow> c) = None \<longrightarrow>
           r = failed ''Failed to parse AI evaluation'')
      \<and> (chat_reply W h = Responded st'' bt'' (Inr data) \<and> res_ok st''
           \<and> match_braces (case choices data of [] \<Rightarrow> [] | c # _ \<Rightarrow> c) = Some j
           \<and> JSON_parse W j = Inl (Error m'') \<longrightarrow>
           r = failed (''Evaluation error: '' @ m''))"
  unfolding Let_def
  by (intro conjI impI evaluateBounty_Inr)
     (simp_all add: evaluateBounty_cases chat_cases)


text \<open>The five failures of C2, each at a concrete world.\<close>

theorem evaluateBounty_fails_closed_witness:
  "fst (evaluateBounty (sample_world (Rejected ''down'') (\<lambda>h. Rejected ''socket hang up''))
          (task ''1'' ''Fix bug'' ''50000000'') (sample_agent True)) =
     Inr \<lparr> suitable = False, confidence = Num 0,
           reasoning = ''Evaluation error: socket hang up'', estimatedEffort = ''high'' \<rparr>
   \<and> fst (evaluateBounty
          (sample_world (Rejected ''down'') (\<lambda>h. Responded 503 ''busy'' (Inl (Error ''no body''))))
          (task ''1'' ''Fix bug'' ''50000000'') (sample_agent True)) =
     Inr \<lparr> suitable = False, confidence = Num 0,
           reasoning = ''Evaluation error: OpenRouter API 503: busy'',
           estimatedEffort = ''high'' \<rparr>
   \<and> fst (evaluateBounty
          (sample_world (Rejected ''down'') (\<lambda>h. Responded 200 ''<html>'' (Inl (Error ''Unexpected token <''))))
          (task ''1'' ''Fix bug'' ''50000000'') (sample_agent True)) =
     Inr \<lparr> suitable = False, confidence = Num 0,
           reasoning = ''Evaluation error: Unexpected token <'', estimatedEffort = ''high'' \<rparr>
   \<and> fst (evaluateBounty (sample_world (Rejected ''down'') (\<lambda>h. says ''I cannot decide''))
          (task ''1'' ''Fix bug'' ''50000000'') (sample_agent True)) =
     Inr \<lparr> suitable = False, confidence = Num 0,
           reasoning = ''Failed to parse AI evaluation'', estimatedEffort = ''high'' \<rparr>
   \<and> fst (evaluateBounty (sample_world (Rejected ''down'') (\<lambda>h. says ''{maybe}''))
          (task ''1'' ''Fix bug'' ''50000000'') (sample_agent True)) =
     Inr \<lparr> suitable = False, confidence = Num 0,
           reasoning = ''Evaluation error: Unexpected token'', estimatedEffort = ''high'' \<rparr>"
  using
    evaluateBounty_fails_closed
      [where W = "sample_world (Rejected ''down'') (\<lambda>h. Rejected ''socket hang up'')"
         and b = "task ''1'' ''Fix bug'' ''50000000''" and a = "sample_agent True"
         and m = "''socket hang up''"]
    evaluateBounty_fails_closed
      [where W = "sample_world (Rejected ''down'')
                    (\<lambda>h. Responded 503 ''busy'' (Inl (Error ''no body'')))"
         and b = "task ''1'' ''Fix bug'' ''50000000''" and a = "sample_agent True"
         and st = 503 and bt = "''busy''" and js = "Inl (Error ''no body'')"]
    evaluateBounty_fails_closed
      [where W = "sample_world (Rejected ''down'')
                    (\<lambda>h. Responded 200 ''<html>'' (Inl (Error ''Unexpected token <'')))"
         and b = "task ''1'' ''Fix bug'' ''50000000''" and a = "sample_agent True"
         and st' = 200 and bt' = "''<html>''" and m' = "''Unexpected token <''"]
    evaluateBounty_fails_closed
      [where W = "sample_world (Rejected ''down'') (\<lambda>h. says ''I cannot decide'')"
         and b = "task ''1'' ''Fix bug'' ''50000000''" and a = "sample_agent True"
         and st'' = 200 and bt'' = "[]" and data = "\<lparr> choices = [''I cannot decide''] \<rparr>"]
    evaluateBounty_fails_closed
      [where W = "sample_world (Rejected ''down'') (\<lambda>h. says ''{maybe}'')"
         and b = "task ''1'' ''Fix bug'' ''50000000''" and a = "sample_agent True"
         and st'' = 200 and bt'' = "[]" and data = "\<lparr> choices = [''{maybe}''] \<rparr>"
         and j = "''{maybe}''" and m'' = "''Unexpected token''"]
  by (simp add: Let_def sample_world_def says_def res_ok_def show_nat.simps YES_def NO_def)

text \<open>
  C3, as the code has it. The span that is parsed runs from the first opening brace of the
  reply to its last closing brace: when the reply is \<open>pre {mid} post\<close> with no opening
  brace in \<open>pre\<close> and no closing brace in \<open>post\<close>, the pattern matches \<open>{mid}\<close>, and
  \<open>evaluateBounty\<close> returns what \<open>JSON.parse\<close> makes of \<open>{mid}\<close>, or the default evaluation
  if \<open>JSON.parse\<close> throws. So a single embedded object is the span parsed when the text
  before it has no opening brace and the text after it has no closing brace. A reply has
  no match exactly when no opening brace of it is followed by a closing brace.
\<close>

theorem evaluateBounty_parses_first_to_last_brace:
  assumes "fst (chat W (evaluation_messages a b) a) = Inr (pre @ CHR ''{'' # mid @ CHR ''}'' # post)"
    and "CHR ''{'' \<notin> set pre" and "CHR ''}'' \<notin> set post"
  shows
  "match_braces (pre @ CHR ''{'' # mid @ CHR ''}'' # post) = Some (CHR ''{'' # mid @ [CHR ''}''])
   \<and> (match_braces reply = None \<longleftrightarrow>
        \<not> (\<exists>pre' mid' post'. reply = pre' @ CHR ''{'' # mid' @ CHR ''}'' # post'))
   \<and> fst (evaluateBounty W b a) =
       (case JSON_parse W (CHR ''{'' # mid @ [CHR ''}'']) of
          Inr ev \<Rightarrow> Inr ev
        | Inl err \<Rightarrow>
            Inr \<lparr> suitable = False, confidence = Num 0,
                  reasoning = ''Evaluation error: '' @ message err,
                  estimatedEffort = ''high'' \<rparr>)"
proof -
  have m: "match_braces (pre @ CHR ''{'' # mid @ CHR ''}'' # post) = Some (CHR ''{'' # mid @ [CHR ''}''])"
    using assms(2,3) by (rule match_braces_span)
  then show ?thesis
    by (simp add: evaluateBounty_cases assms(1) match_braces_None_iff split: sum.splits)
qed

text \<open>
  C3 at a reply with one object between two pieces of text without braces: the object is
  what is parsed.
\<close>

theorem evaluateBounty_parses_first_to_last_brace_witness:
  "fst (evaluateBounty (sample_world (Rejected ''down'') (\<lambda>h. says (''Verdict: '' @ YES @ '' Done.'')))
          (task ''1'' ''Fix bug'' ''50000000'') (sample_agent True))
     = Inr (verdict True)"
proof -
  let ?W = "sample_world (Rejected ''down'') (\<lambda>h. says (''Verdict: '' @ YES @ '' Done.''))"
  let ?b = "task ''1'' ''Fix bug'' ''50000000''"
  let ?mid = "butlast (tl YES)"
  have y: "CHR ''{'' # ?mid @ [CHR ''}''] = YES"
    by (simp add: YES_def)
  have r: "''Verdict: '' @ CHR ''{'' # ?mid @ CHR ''}'' # '' Done.'' = ''Verdict: '' @ YES @ '' Done.''"
    by (simp add: YES_def)
  have c: "fst (chat ?W (evaluation_messages (sample_agent True) ?b) (sample_agent True))
      = Inr (''Verdict: '' @ CHR ''{'' # ?mid @ CHR ''}'' # '' Done.'')"
    unfolding r by (simp add: chat_cases sample_world_def says_def res_ok_def)
  have p: "JSON_parse ?W YES = Inr (verdict True)"
    by (simp add: sample_world_def)
  show ?thesis
    using evaluateBounty_parses_first_to_last_brace [OF c] p unfolding y by simp
qed

text \<open>
  C3 as stated fails when a closing brace follows the first balanced span. In the reply
  below the first balanced span is the JSON object, which \<open>JSON.parse\<close> accepts; the
  pattern matches up to the last brace of the reply, \<open>JSON.parse\<close> throws on that, and the
  evaluation is the default one.
\<close>

theorem first_balanced_span_counterexample:
  "first_balanced_span (YES @ '' as {json}'') = Some YES
   \<and> JSON_parse (sample_world (Rejected ''down'') (\<lambda>h. says (YES @ '' as {json}''))) YES
       = Inr (verdict True)
   \<and> match_braces (YES @ '' as {json}'') = Some (YES @ '' as {json}'')
   \<and> fst (evaluateBounty (sample_world (Rejected ''down'') (\<lambda>h. says (YES @ '' as {json}'')))
          (task ''1'' ''Fix bug'' ''50000000'') (sample_agent True))
       = Inr \<lparr> suitable = False, confidence = Num 0,
               reasoning = ''Evaluation error: Unexpected token'',
               estimatedEffort = ''high'' \<rparr>"
  by (simp add: YES_def NO_def evaluateBounty_cases chat_cases sample_world_def says_def
        res_ok_def)





text \<open>
  C5, as the code has it. For an evaluation that is suitable with a confidence of at least
  0.6 and whose reward in USDC is above the ceiling, the claim loop passes over the entry
  without any effect. If no other evaluation of the cycle carries the same id, the id is
  in none of the three sets when the cycle ends, no claim request was sent for it, and a
  discovery at that point keeps every listed open bounty of that id.
\<close>

theorem over_ceiling_is_left_untracked:
  assumes "(b, ev) \<in> set (cycle_evaluations W a)"
    and "suitable ev" and "js_ge (confidence ev) (Num (5404319552844595 / 2 ^ 53))"
    and "js_gt (reward_usdc W b) (maxReward (config a))"
  shows
  "(b, ev) \<in> set (filter is_suitable (cycle_evaluations W a))
   \<and> (config a' = config a \<longrightarrow> claim_loop W ((b, ev) # rest) a' = claim_loop W rest a')
   \<and> ((\<forall>e\<in>set (cycle_evaluations W a). id' (fst e) = id' b \<longrightarrow> e = (b, ev)) \<longrightarrow>
        id' b \<notin> tracked (snd (runCycle W a))
        \<and> claim_request a (id' b) \<notin> set (events_since a (snd (runCycle W a)))
        \<and> (fst (listOpenBounties W (snd (runCycle W a))) = Inr L \<and> b' \<in> set L
             \<and> id' b' = id' b \<longrightarrow>
             (\<exists>ds. fst (discoverBounties W (snd (runCycle W a))) = Inr ds \<and> b' \<in> set ds)))"
proof -
  let ?a' = "snd (runCycle W a)"
  have 1: "(b, ev) \<in> set (filter is_suitable (cycle_evaluations W a))"
    using assms(1-3) by (simp add: is_suitable_def)
  have 2: "claim_loop W ((b, ev) # rest) a' = claim_loop W rest a'" if "config a' = config a"
    using assms(4) that by simp
  have 3: "id' b \<notin> tracked ?a' \<and> claim_request a (id' b) \<notin> set (events_since a ?a')"
    if d: "\<forall>e\<in>set (cycle_evaluations W a). id' (fst e) = id' b \<longrightarrow> e = (b, ev)"
  proof -
    have "id' b \<notin> tracked a"
      using cycle_evaluations_untracked [OF assms(1)] by simp
    moreover have "adds (- {id' b}) (- {id' b}) (- {id' b}) a ?a'"
      using assms(1,2,4) d by (rule runCycle_over_ceiling_untracked)
    ultimately show ?thesis
      by (auto simp: adds_def tracked_def)
  qed
  have 4: "\<exists>ds. fst (discoverBounties W ?a') = Inr ds \<and> b' \<in> set ds"
    if "id' b \<notin> tracked ?a'" and "fst (listOpenBounties W ?a') = Inr L" and "b' \<in> set L"
      and "id' b' = id' b"
    using that by (simp add: discoverBounties_cases)
  show ?thesis
    using 1 2 3 4 by blast
qed

text \<open>
  C5 at a listing of one suitable bounty of 200 USDC and the default ceiling of 100: after
  the cycle the three sets are empty, and the next discovery returns the bounty again.
\<close>

theorem over_ceiling_is_left_untracked_witness:
  "reward_usdc costly_world (task ''1'' ''Fix bug'' ''200000000'') = Num 200
   \<and> maxReward (config (sample_agent True)) = Num 100
   \<and> ''1'' \<notin> tracked (snd (runCycle costly_world (sample_agent True)))
   \<and> claim_loop costly_world
        [(task ''1'' ''Fix bug'' ''200000000'', verdict True)] (sample_agent True)
      = (Inr (), sample_agent True)
   \<and> (\<exists>ds. fst (discoverBounties costly_world (snd (runCycle costly_world (sample_agent True))))
              = Inr ds
            \<and> task ''1'' ''Fix bug'' ''200000000'' \<in> set ds)"
proof -
  let ?b = "task ''1'' ''Fix bug'' ''200000000''"
  let ?a' = "snd (runCycle costly_world (sample_agent True))"
  have ce: "cycle_evaluations costly_world (sample_agent True) = [(?b, verdict True)]"
    by (simp add: run_defs sample_defs costly_world_def)
  have m: "(?b, verdict True) \<in> set (cycle_evaluations costly_world (sample_agent True))"
    unfolding ce by simp
  have s: "suitable (verdict True)"
    "js_ge (confidence (verdict True)) (Num (5404319552844595 / 2 ^ 53))"
    by (simp_all add: verdict_def)
  have r: "reward_usdc costly_world ?b = Num 200"
    by (simp add: reward_usdc_def task_def costly_world_def sample_world_def truthy_str_def)
  have c: "maxReward (config (sample_agent True)) = Num 100"
    by (simp add: sample_agent_def new_BountyAgent_def or_num_def)
  have g: "js_gt (reward_usdc costly_world ?b) (maxReward (config (sample_agent True)))"
    by (simp add: r c)
  have d: "\<forall>e\<in>set (cycle_evaluations costly_world (sample_agent True)).
      id' (fst e) = id' ?b \<longrightarrow> e = (?b, verdict True)"
    unfolding ce by simp
  have i: "id' ?b = ''1''"
    by (simp add: task_def)
  have l: "fst (listOpenBounties costly_world ?a') = Inr [?b]"
    by (simp add: listOpenBounties_cases request_def costly_world_def sample_world_def
          res_ok_def task_def truthy_str_def)
  note t = over_ceiling_is_left_untracked
    [OF m s g, where a' = "sample_agent True" and rest = "[]" and L = "[?b]" and b' = ?b]
  have A: "claim_loop costly_world [(?b, verdict True)] (sample_agent True)
      = claim_loop costly_world [] (sample_agent True)"
    using t by blast
  have B: "''1'' \<notin> tracked ?a'"
    using t d unfolding i by blast
  have C: "\<exists>ds. fst (discoverBounties costly_world ?a') = Inr ds \<and> ?b \<in> set ds"
    using t d l by simp
  show ?thesis
    using B C r c by (simp add: A del: claim_loop.simps(2))
qed

text \<open>
  C5 as stated fails when two entries of the listing carry the same id: the first is above
  the ceiling and passed over, the second is within the ceiling, and the cycle claims and
  completes the id.
\<close>

theorem over_ceiling_claimed_counterexample:
  "(task ''1'' ''Fix bug'' ''200000000'', verdict True)
      \<in> set (cycle_evaluations twin_ceiling_world (sample_agent True))
   \<and> suitable (verdict True)
   \<and> js_ge (confidence (verdict True)) (Num (5404319552844595 / 2 ^ 53))
   \<and> js_gt (reward_usdc twin_ceiling_world (task ''1'' ''Fix bug'' ''200000000''))
        (maxReward (config (sample_agent True)))
   \<and> ''1'' \<in> claimedBounties (state (snd (runCycle twin_ceiling_world (sample_agent True))))
   \<and> ''1'' \<in> completedBounties (state (snd (runCycle twin_ceiling_world (sample_agent True))))"
  by (simp add: run_defs sample_defs twin_ceiling_world_def)

text \<open>
  C6. In dry-run mode \<open>claimBounty\<close> and then \<open>submitWork\<close> record no event (no request
  is sent), the id enters the claimed set and then the completed set, and the submission
  result has the status \<open>"dry_run"\<close>. A live agent \<open>l\<close> whose request succeeds updates the
  same set in the same way.
\<close>

theorem dry_run_claim_then_submit:
  assumes "dryRun (config a)"
  shows
  "(let (r1, a1) = claimBounty W i a; (r2, a2) = submitWork W i subm pf a1
    in r1 = Inr True
       \<and> r2 = Inr \<lparr> bountyId = i, submission = subm, proof_url = pf, status' = ''dry_run'' \<rparr>
       \<and> trace a1 = trace a \<and> trace a2 = trace a
       \<and> claimedBounties (state a1) = insert i (claimedBounties (state a))
       \<and> claimedBounties (state a2) = insert i (claimedBounties (state a))
       \<and> completedBounties (state a2) = insert i (completedBounties (state a))
       \<and> skippedBounties (state a2) = skippedBounties (state a))
   \<and> (\<not> dryRun (config l)
        \<and> fst (client_claimBounty W i (walletAddress (config l)) l) = Inr st \<longrightarrow>
        fst (claimBounty W i l) = Inr True
        \<and> claimedBounties (state (snd (claimBounty W i l))) = insert i (claimedBounties (state l)))
   \<and> (\<not> dryRun (config l)
        \<and> fst (client_submitBounty W i (walletAddress (config l)) subm pf l) = Inr st \<longrightarrow>
        completedBounties (state (snd (submitWork W i subm pf l)))
          = insert i (completedBounties (state l)))"
  using assms
  by (simp add: claimBounty_dry submitWork_dry claimBounty_live submitWork_live Let_def)

text \<open>C6 at a dry-run agent and at a live agent whose requests are accepted.\<close>

theorem dry_run_claim_then_submit_witness:
  "(let (r1, a1) = claimBounty (sample_world (Rejected ''down'') (\<lambda>h. says YES)) ''7''
                     (sample_agent True);
        (r2, a2) = submitWork (sample_world (Rejected ''down'') (\<lambda>h. says YES)) ''7''
                     ''the work'' ''https://github.com/0x012345/bounty-7'' a1
    in r2 = Inr \<lparr> bountyId = ''7'', submission = ''the work'',
                   proof_url = ''https://github.com/0x012345/bounty-7'',
                   status' = ''dry_run'' \<rparr>
       \<and> trace a2 = []
       \<and> claimedBounties (state a2) = {''7''}
       \<and> completedBounties (state a2) = {''7''})
   \<and> claimedBounties (state (snd (claimBounty (sample_world (Rejected ''down'') (\<lambda>h. says YES))
         ''7'' (sample_agent False)))) = {''7''}
   \<and> completedBounties (state (snd (submitWork (sample_world (Rejected ''down'') (\<lambda>h. says YES))
         ''7'' ''the work'' ''https://github.com/0x012345/bounty-7'' (sample_agent False))))
       = {''7''}"
  using dry_run_claim_then_submit
    [where a = "sample_agent True" and l = "sample_agent False"
       and W = "sample_world (Rejected ''down'') (\<lambda>h. says YES)" and i = "''7''"
       and subm = "''the work''" and pf = "''https://github.com/0x012345/bounty-7''"
       and st = "''claimed''"]
  by (simp add: Let_def sample_agent_def new_BountyAgent_def sample_world_def
        client_claimBounty_def client_submitBounty_def request_def res_ok_def
        split: prod.splits)

text \<open>
  C7. While the flag is set, a cycle that throws does not end the loop: the error is
  caught, the turn ends with the timer of the configured interval, and the loop goes on
  with the next turn. If nobody calls \<open>stop()\<close> the loop has not returned after any number
  of turns, whatever the cycles throw.
\<close>

theorem cycle_error_does_not_end_loop:
  assumes "isRunning (state a)"
  shows
  "(fst (runCycle W a) = Inl err \<longrightarrow>
      loop_turn W a = await W (Sleep (pollInterval (config a))) (snd (runCycle W a))
      \<and> trace (loop_turn W a) = trace (snd (runCycle W a)) @ [Sleep (pollInterval (config a))]
      \<and> while_running (Suc n) W a = while_running n W (loop_turn W a))
   \<and> ((\<forall>h. \<not> stop_called W h) \<longrightarrow>
      while_running n W a = (StillRunning, (loop_turn W ^^ n) a)
      \<and> startLoop n W (stop a) = (StillRunning, (loop_turn W ^^ n) a))"
proof -
  have "(stop a)\<lparr>state := (state (stop a))\<lparr>isRunning := True\<rparr>\<rparr> = a"
    using assms by (simp add: stop_def)
  then have "startLoop n W (stop a) = while_running n W a"
    by (simp add: startLoop_def) (simp add: stop_def)
  then show ?thesis
    using assms by (simp add: loop_turn_eq while_running_forever)
qed

text \<open>
  C7 at a world in which the generation of the work plan throws in the first cycle: the
  loop goes through both timers and has not returned after two turns.
\<close>

theorem cycle_error_does_not_end_loop_witness:
  "fst (runCycle planless_world
          ((sample_agent True)\<lparr>state := (state (sample_agent True))\<lparr>isRunning := True\<rparr>\<rparr>))
     = Inl (Error ''oracle down'')
   \<and> fst (startLoop (Suc (Suc 0)) planless_world (sample_agent True)) = StillRunning
   \<and> filter (\<lambda>e. e = Sleep (Num 300000))
         (trace (snd (startLoop (Suc (Suc 0)) planless_world (sample_agent True))))
       = [Sleep (Num 300000), Sleep (Num 300000)]
   \<and> length (trace (snd (startLoop (Suc (Suc 0)) planless_world (sample_agent True)))) = 6"
proof -
  let ?a = "(sample_agent True)\<lparr>state := (state (sample_agent True))\<lparr>isRunning := True\<rparr>\<rparr>"
  have s: "stop ?a = sample_agent True"
    by (simp add: stop_def sample_agent_def new_BountyAgent_def)
  have r: "isRunning (state ?a)"
    by simp
  have n: "\<forall>h. \<not> stop_called planless_world h"
    by (simp add: planless_world_def sample_world_def)
  have e: "fst (runCycle planless_world ?a) = Inl (Error ''oracle down'')"
    by (simp add: run_defs sample_defs planless_world_def)
  have t: "trace (loop_turn planless_world (loop_turn planless_world ?a)) =
      trace (loop_turn planless_world ?a)
        @ [HttpGet ''https://bounty.owockibot.xyz/bounties'', Sleep (Num 300000)]"
    by (simp add: run_defs sample_defs planless_world_def loop_turn_def client_apiBase_def
          DEFAULT_API_BASE_def)
  have t1: "filter (\<lambda>e. e = Sleep (Num 300000)) (trace (loop_turn planless_world ?a))
      = [Sleep (Num 300000)]"
    "length (trace (loop_turn planless_world ?a)) = 4"
    by (simp_all add: run_defs sample_defs planless_world_def loop_turn_def)
  note c = cycle_error_does_not_end_loop
    [OF r, where W = planless_world and err = "Error ''oracle down''" and n = "Suc (Suc 0)"]
  have "startLoop (Suc (Suc 0)) planless_world (sample_agent True)
      = (StillRunning, loop_turn planless_world (loop_turn planless_world ?a))"
    using c n unfolding s by simp
  then show ?thesis
    using e t t1 by simp
qed

text \<open>
  C8. Along any sequence of operations of the agent (discover, evaluate, claim, generate a
  work plan, submit, a cycle, the loop, stop) each of the three sets only grows, and a
  cycle started after the sequence evaluates no bounty whose id was in one of the sets
  before it.
\<close>

theorem tracking_sets_only_grow:
  assumes "rtranclp (agent_op W) a a'"
  shows
  "claimedBounties (state a) \<subseteq> claimedBounties (state a')
   \<and> completedBounties (state a) \<subseteq> completedBounties (state a')
   \<and> skippedBounties (state a) \<subseteq> skippedBounties (state a')
   \<and> (\<forall>e\<in>set (cycle_evaluations W a'). id' (fst e) \<notin> tracked a)"
proof -
  have g: "grows a a'"
    using assms by (rule grows_rtranclp)
  then have "tracked a \<subseteq> tracked a'"
    by (auto simp: grows_def tracked_def)
  then have "\<forall>e\<in>set (cycle_evaluations W a'). id' (fst e) \<notin> tracked a"
    using cycle_evaluations_untracked [of _ W a'] by blast
  with g show ?thesis
    by (simp add: grows_def)
qed

text \<open>
  C8 at a dry-run agent that holds bounty 1 and then claims bounty 3, on a listing of the
  bounties 1, 2 and 3: the id 1 stays claimed, and the next cycle evaluates only bounty 2.
\<close>

theorem tracking_sets_only_grow_witness:
  "''1'' \<in> claimedBounties (state (snd (claimBounty
       (sample_world (Responded 200 [] (Inr [task ''1'' ''Fix bug'' ''50000000'',
                                            task ''2'' ''Add test'' ''50000000'',
                                            task ''3'' ''Write docs'' ''50000000'']))
          (\<lambda>h. says NO))
       ''3'' (add_claimed ''1'' (sample_agent True)))))
   \<and> map (\<lambda>e. id' (fst e)) (cycle_evaluations
       (sample_world (Responded 200 [] (Inr [task ''1'' ''Fix bug'' ''50000000'',
                                            task ''2'' ''Add test'' ''50000000'',
                                            task ''3'' ''Write docs'' ''50000000'']))
          (\<lambda>h. says NO))
       (snd (claimBounty
          (sample_world (Responded 200 [] (Inr [task ''1'' ''Fix bug'' ''50000000'',
                                               task ''2'' ''Add test'' ''50000000'',
                                               task ''3'' ''Write docs'' ''50000000'']))
             (\<lambda>h. says NO))
          ''3'' (add_claimed ''1'' (sample_agent True))))) = [''2'']"
proof -
  let ?W = "sample_world (Responded 200 [] (Inr [task ''1'' ''Fix bug'' ''50000000'',
                                                task ''2'' ''Add test'' ''50000000'',
                                                task ''3'' ''Write docs'' ''50000000'']))
              (\<lambda>h. says NO)"
  let ?a = "add_claimed ''1'' (sample_agent True)"
  have "rtranclp (agent_op ?W) ?a (snd (claimBounty ?W ''3'' ?a))"
    by (rule r_into_rtranclp) (rule op_claim)
  from tracking_sets_only_grow [OF this] show ?thesis
    by (simp add: cycle_evaluations_def evaluate_phase_def discoverBounties_def
          listOpenBounties_def listBounties_def request_def evaluateBounty_def
          evaluateBounty_try_def chat_def sample_world_def says_def NO_def YES_def task_def
          res_ok_def truthy_str_def Let_def add_claimed_def sample_agent_def
          new_BountyAgent_def await_def add_skipped_def verdict_def claimBounty_def)
qed

text \<open>
  C9. The constructor replaces a falsy value by the default: a \<open>maxReward\<close> of \<open>0\<close>
  becomes \<open>100\<close>, a \<open>pollInterval\<close> of \<open>0\<close> becomes \<open>300000\<close>, an empty \<open>model\<close>
  becomes the default model; so no configuration gives a reward ceiling of zero.
\<close>

theorem constructor_falsy_defaults:
  "maxReward (config (new_BountyAgent (c\<lparr>maxReward_arg := Some (Num 0)\<rparr>))) = Num 100
   \<and> pollInterval (config (new_BountyAgent (c\<lparr>pollInterval_arg := Some (Num 0)\<rparr>))) = Num 300000
   \<and> model (config (new_BountyAgent (c\<lparr>model_arg := Some []\<rparr>))) = DEFAULT_MODEL
   \<and> maxReward (config (new_BountyAgent c')) \<noteq> Num 0"
  by (cases "maxReward_arg c'")
     (auto simp: new_BountyAgent_def or_num_def or_str_def truthy_str_def
           elim: truthy_num.elims)




end
